theory Spec2Isabelle
  imports Main "HOL-Library.Word" "HOL-Library.Multiset" "HOL-Library.AList"
begin

unbundle bit_operations_syntax

section \<open>Data model of \<^verbatim>\<open>enterprise/pkg/a8n/counts.go\<close>\<close>

text \<open>
  A \<^verbatim>\<open>time.Time\<close> is an instant. Go keeps it (without a monotonic clock reading) as a
  number of seconds since January 1 of the year 1 in an \<^verbatim>\<open>int64\<close> and a number of
  nanoseconds below \<open>10\<^sup>9\<close>. It is modelled as the number of nanoseconds since that origin,
  so the instants of Go are the integers from \<open>minTime\<close> to \<open>maxTime\<close>, and
  \<^verbatim>\<open>Before\<close>, \<^verbatim>\<open>After\<close> and \<^verbatim>\<open>Equal\<close> are \<open><\<close>, \<open>>\<close> and \<open>=\<close>. A \<^verbatim>\<open>time.Duration\<close>
  is a number of nanoseconds.
\<close>

type_synonym time = int
type_synonym duration = int
type_synonym int32 = "32 word"
type_synonym int64 = "64 word"

definition Second :: duration where
  "Second = 1000000000"

definition Hour :: duration where
  "Hour = 3600 * 1000000000"

definition minTime :: time where
  "minTime = - (2 ^ 63) * Second"

definition maxTime :: time where
  "maxTime = (2 ^ 63 - 1) * Second + (Second - 1)"

definition Before :: "time \<Rightarrow> time \<Rightarrow> bool" where
  "Before t u = (t < u)"

definition After :: "time \<Rightarrow> time \<Rightarrow> bool" where
  "After t u = (u < t)"

definition Equal :: "time \<Rightarrow> time \<Rightarrow> bool" where
  "Equal t u = (t = u)"

text \<open>
  \<^verbatim>\<open>t.Add(d)\<close> of the Go standard library is bounded. It splits \<open>d\<close> into seconds and
  nanoseconds with Go's division, which truncates towards zero (\<open>quo\<close>, \<open>rem\<close>), carries
  the nanoseconds, and adds the seconds in \<^verbatim>\<open>addSec\<close>: when the sum leaves the range of
  \<^verbatim>\<open>int64\<close> the seconds become \<open>2\<^sup>6\<^sup>3 - 1\<close> for a positive and \<open>-(2\<^sup>6\<^sup>3 - 1)\<close> for a negative
  \<open>d\<close>. So \<open>Add t d\<close> is \<open>t + d\<close> only while the seconds stay in range; \<open>floorTime\<close> is
  the instant that going back in time ends at.
\<close>

definition quo :: "int \<Rightarrow> int \<Rightarrow> int" where
  "quo a b = sgn a * sgn b * (\<bar>a\<bar> div \<bar>b\<bar>)"

definition rem :: "int \<Rightarrow> int \<Rightarrow> int" where
  "rem a b = a - b * quo a b"

definition addSec :: "int \<Rightarrow> int \<Rightarrow> int" where
  "addSec ext d =
     (let sum = ext + d
      in if 0 < d \<and> 2 ^ 63 - 1 < sum then 2 ^ 63 - 1
         else if d < 0 \<and> sum < - (2 ^ 63) then - (2 ^ 63 - 1)
         else sum)"

definition Add :: "time \<Rightarrow> duration \<Rightarrow> time" where
  "Add t d =
     (let dsec = quo d Second;
          nsec = t mod Second + rem d Second;
          (dsec, nsec) = (if Second \<le> nsec then (dsec + 1, nsec - Second)
                          else if nsec < 0 then (dsec - 1, nsec + Second)
                          else (dsec, nsec))
      in addSec (t div Second) dsec * Second + nsec)"

definition floorTime :: time where
  "floorTime = - (2 ^ 63 - 1) * Second"

text \<open>The struct \<^verbatim>\<open>ChangesetCounts\<close>: a time and seven \<^verbatim>\<open>int32\<close> counters.\<close>

record ChangesetCounts =
  Time :: time
  Total :: int32
  Merged :: int32
  Closed :: int32
  Open :: int32
  OpenApproved :: int32
  OpenChangesRequested :: int32
  OpenPending :: int32

text \<open>
  Modelled from the spec: the type \<^verbatim>\<open>a8n.ChangesetEventKind\<close> is declared in
  \<^verbatim>\<open>internal/a8n\<close>, which is not among the sources. The three kinds that
  \<^verbatim>\<open>CalcCounts\<close> switches on and the review kind that the tests build are named as
  in the code; every other kind is \<open>ChangesetEventKindOther\<close>.
\<close>

datatype ChangesetEventKind =
    ChangesetEventKindGitHubClosed
  | ChangesetEventKindGitHubReopened
  | ChangesetEventKindGitHubMerged
  | ChangesetEventKindGitHubReviewed
  | ChangesetEventKindOther string

text \<open>
  The interface \<^verbatim>\<open>Event\<close>: what its three methods return. The methods are taken
  to be pure, so an event is the record of their results.
\<close>

record Event =
  Timestamp :: time
  Type :: ChangesetEventKind
  Changeset :: int64

text \<open>
  Modelled from the spec: the struct \<^verbatim>\<open>a8n.Changeset\<close> and its method
  \<^verbatim>\<open>ExternalCreatedAt\<close> live in \<^verbatim>\<open>internal/a8n\<close>, which is not among the sources.
  The spec gives a changeset an internal id and an external creation timestamp that may
  be unavailable, in which case \<^verbatim>\<open>ExternalCreatedAt\<close> fails with
  \<open>MissingCreationTime\<close>.
\<close>

record Changeset =
  ID :: int64
  CreatedAt :: "time option"

datatype error = MissingCreationTime

definition ExternalCreatedAt :: "Changeset \<Rightarrow> error + time" where
  "ExternalCreatedAt c =
     (case CreatedAt c of None \<Rightarrow> Inl MissingCreationTime | Some t \<Rightarrow> Inr t)"

text \<open>
  \<^verbatim>\<open>CalcCounts\<close> receives \<^verbatim>\<open>[]*a8n.Changeset\<close> and keys a map by these pointers.
  A pointer is an address, and the heap gives the changeset stored at each address. The
  same address occurring twice in the argument slice is one key of the map.
\<close>

type_synonym ptr = nat
type_synonym heap = "ptr \<Rightarrow> Changeset"

section \<open>\<^verbatim>\<open>generateTimestamps\<close>\<close>

text \<open>
  The first loop: \<^verbatim>\<open>for t := end; t.After(start) || t.Equal(start); t = t.Add(-24 * time.Hour)\<close>
  appends \<open>t\<close> to \<open>ts\<close>. Nothing in the loop bounds the number of its iterations, and
  \<open>Add\<close> need not go back in time, so the loop is a partial function: \<open>None\<close> says
  that it does not return.
\<close>

partial_function (option) walk_backwards :: "time \<Rightarrow> time \<Rightarrow> time list \<Rightarrow> time list option" where
  "walk_backwards start t ts =
     (if After t start \<or> Equal t start
      then walk_backwards start (Add t (- 24 * Hour)) (ts @ [t])
      else Some ts)"

declare walk_backwards.simps [code]

text \<open>
  The second loop reverses the slice in place:
  \<^verbatim>\<open>for i := len(ts)/2 - 1; i >= 0; i-- { opp := len(ts) - 1 - i; ts[i], ts[opp] = ts[opp], ts[i] }\<close>.
  The first argument of \<open>reverse_loop\<close> is \<open>i + 1\<close>, the number of iterations left;
  the loop starts with \<open>len(ts)/2\<close> of them. Every index it touches is within the slice.
\<close>

fun reverse_loop :: "nat \<Rightarrow> 'a list \<Rightarrow> 'a list" where
  "reverse_loop 0 ts = ts"
| "reverse_loop (Suc i) ts =
     (let opp = length ts - 1 - i
      in reverse_loop i (ts[i := ts ! opp, opp := ts ! i]))"

definition generateTimestamps :: "time \<Rightarrow> time \<Rightarrow> time list option" where
  "generateTimestamps start end =
     (case walk_backwards start end [] of
        None \<Rightarrow> None
      | Some ts \<Rightarrow> Some (reverse_loop (length ts div 2) ts))"

section \<open>\<^verbatim>\<open>CalcCounts\<close>\<close>

text \<open>The struct literal \<^verbatim>\<open>&ChangesetCounts{Time: t}\<close>: every counter starts at zero.\<close>

definition new_counts :: "time \<Rightarrow> ChangesetCounts" where
  "new_counts t = \<lparr>Time = t, Total = 0, Merged = 0, Closed = 0, Open = 0,
                    OpenApproved = 0, OpenChangesRequested = 0, OpenPending = 0\<rparr>"

text \<open>The \<^verbatim>\<open>switch e.Type()\<close> of the innermost loop.\<close>

fun apply_event :: "ChangesetCounts \<Rightarrow> Event \<Rightarrow> ChangesetCounts" where
  "apply_event cnt e =
     (case Type e of
        ChangesetEventKindGitHubClosed \<Rightarrow>
          cnt\<lparr>Open := Open cnt - 1, Closed := Closed cnt + 1\<rparr>
      | ChangesetEventKindGitHubReopened \<Rightarrow>
          cnt\<lparr>Open := Open cnt + 1, Closed := Closed cnt - 1\<rparr>
      | ChangesetEventKindGitHubMerged \<Rightarrow>
          cnt\<lparr>Merged := Merged cnt + 1, Open := Open cnt - 1\<rparr>
      | _ \<Rightarrow> cnt)"

text \<open>
  The body of \<^verbatim>\<open>for _, e := range csEvents\<close>: an event after \<open>t\<close> is skipped.
\<close>

definition event_step :: "time \<Rightarrow> ChangesetCounts \<Rightarrow> Event \<Rightarrow> ChangesetCounts" where
  "event_step t cnt e = (if After (Timestamp e) t then cnt else apply_event cnt e)"

text \<open>
  The body of \<^verbatim>\<open>for _, count := range counts\<close> for one changeset opened at
  \<open>openedAt\<close> with events \<open>csEvents\<close>.
\<close>

definition count_changeset ::
  "time \<Rightarrow> Event list \<Rightarrow> ChangesetCounts \<Rightarrow> ChangesetCounts" where
  "count_changeset openedAt csEvents cnt =
     (let t = Time cnt
      in if Before openedAt t \<or> Equal openedAt t
         then foldl (event_step t)
                (cnt\<lparr>Total := Total cnt + 1, Open := Open cnt + 1\<rparr>) csEvents
         else cnt)"

text \<open>
  \<^verbatim>\<open>for c, csEvents := range byChangeset\<close>: the entries of the map in the order
  of iteration. The first changeset whose creation time is missing ends the function
  with \<^verbatim>\<open>return nil, err\<close>.
\<close>

fun range_byChangeset ::
  "heap \<Rightarrow> (ptr \<times> Event list) list \<Rightarrow> ChangesetCounts list \<Rightarrow> error + ChangesetCounts list" where
  "range_byChangeset h [] counts = Inr counts"
| "range_byChangeset h ((c, csEvents) # rest) counts =
     (case ExternalCreatedAt (h c) of
        Inl err \<Rightarrow> Inl err
      | Inr openedAt \<Rightarrow> range_byChangeset h rest (map (count_changeset openedAt csEvents) counts))"

text \<open>
  \<^verbatim>\<open>for _, c := range cs\<close>: the events of changeset \<open>c\<close> are collected in the
  order of the sorted slice and stored under the key \<open>c\<close>. The map is an association
  list with distinct keys; storing under a key that is present replaces its value.
\<close>

definition group_events :: "heap \<Rightarrow> Event list \<Rightarrow> ptr \<Rightarrow> Event list" where
  "group_events h events c = filter (\<lambda>e. Changeset e = ID (h c)) events"

fun make_byChangeset ::
  "heap \<Rightarrow> Event list \<Rightarrow> ptr list \<Rightarrow> (ptr \<times> Event list) list \<Rightarrow> (ptr \<times> Event list) list" where
  "make_byChangeset h events [] byChangeset = byChangeset"
| "make_byChangeset h events (c # cs) byChangeset =
     make_byChangeset h events cs (AList.update c (group_events h events c) byChangeset)"

text \<open>
  \<^verbatim>\<open>sort.Sort(events)\<close> orders the events by \<^verbatim>\<open>Less\<close>, that is by timestamp.
  It is modelled by the insertion sort \<open>sort_key\<close>. The Go routine does not promise an
  order among events of equal timestamp, and the order in which Go iterates over a map is
  not fixed: the lemmas \<open>CalcCounts_events_mset\<close> and \<open>range_byChangeset_mset\<close> below
  show that neither order changes the result. \<open>CalcCounts\<close> returns only if
  \<^verbatim>\<open>generateTimestamps\<close> does: \<open>None\<close> says that the call does not return.
\<close>

definition CalcCounts ::
  "heap \<Rightarrow> time \<Rightarrow> time \<Rightarrow> ptr list \<Rightarrow> Event list \<Rightarrow>
     (error + ChangesetCounts list) option" where
  "CalcCounts h start end cs es =
     (case generateTimestamps start end of
        None \<Rightarrow> None
      | Some ts \<Rightarrow>
          Some (let counts = map new_counts ts;
                    events = sort_key Timestamp es;
                    byChangeset = make_byChangeset h events cs []
                in range_byChangeset h byChangeset counts))"

text \<open>
  The Go function returns the pair \<^verbatim>\<open>(counts, nil)\<close> or \<^verbatim>\<open>(nil, err)\<close>;
  \<open>snapshots\<close> is the first component, the nil slice being the empty list. A call that
  does not return gives no snapshots either.
\<close>

definition snapshots :: "(error + ChangesetCounts list) option \<Rightarrow> ChangesetCounts list" where
  "snapshots r = (case r of Some (Inr counts) \<Rightarrow> counts | _ \<Rightarrow> [])"

section \<open>The signature of a webhook\<close>

text \<open>
  \<^verbatim>\<open>sign\<close> calls \<^verbatim>\<open>crypto/sha256\<close>, \<^verbatim>\<open>crypto/hmac\<close> and \<^verbatim>\<open>encoding/hex\<close> of the Go
  standard library. They are written out here: SHA-256 as in FIPS 180-4 (padding, message
  schedule, 64 rounds per block of 64 bytes), HMAC as \<^verbatim>\<open>hmac.New\<close> builds it (a key
  longer than the block is hashed, the key is copied into a zeroed block of 64 bytes and
  xored with \<open>0x36\<close> and \<open>0x5c\<close>), and \<^verbatim>\<open>hex.EncodeToString\<close> with its table of
  lower-case digits. A \<^verbatim>\<open>[]byte\<close> is a list of 8-bit words, a Go string a \<open>string\<close>.
\<close>

type_synonym byte = "8 word"
type_synonym uint32 = "32 word"

text \<open>The constants of the rounds 0 to 7.\<close>

definition K256_0_7 :: "uint32 list" where
  "K256_0_7 =
    [0x428a2f98, 0x71374491, 0xb5c0fbcf, 0xe9b5dba5,
     0x3956c25b, 0x59f111f1, 0x923f82a4, 0xab1c5ed5]"

text \<open>The constants of the rounds 8 to 15.\<close>

definition K256_8_15 :: "uint32 list" where
  "K256_8_15 =
    [0xd807aa98, 0x12835b01, 0x243185be, 0x550c7dc3,
     0x72be5d74, 0x80deb1fe, 0x9bdc06a7, 0xc19bf174]"

text \<open>The constants of the rounds 16 to 23.\<close>

definition K256_16_23 :: "uint32 list" where
  "K256_16_23 =
    [0xe49b69c1, 0xefbe4786, 0x0fc19dc6, 0x240ca1cc,
     0x2de92c6f, 0x4a7484aa, 0x5cb0a9dc, 0x76f988da]"

text \<open>The constants of the rounds 24 to 31.\<close>

definition K256_24_31 :: "uint32 list" where
  "K256_24_31 =
    [0x983e5152, 0xa831c66d, 0xb00327c8, 0xbf597fc7,
     0xc6e00bf3, 0xd5a79147, 0x06ca6351, 0x14292967]"

text \<open>The constants of the rounds 32 to 39.\<close>

definition K256_32_39 :: "uint32 list" where
  "K256_32_39 =
    [0x27b70a85, 0x2e1b2138, 0x4d2c6dfc, 0x53380d13,
     0x650a7354, 0x766a0abb, 0x81c2c92e, 0x92722c85]"

text \<open>The constants of the rounds 40 to 47.\<close>

definition K256_40_47 :: "uint32 list" where
  "K256_40_47 =
    [0xa2bfe8a1, 0xa81a664b, 0xc24b8b70, 0xc76c51a3,
     0xd192e819, 0xd6990624, 0xf40e3585, 0x106aa070]"

text \<open>The constants of the rounds 48 to 55.\<close>

definition K256_48_55 :: "uint32 list" where
  "K256_48_55 =
    [0x19a4c116, 0x1e376c08, 0x2748774c, 0x34b0bcb5,
     0x391c0cb3, 0x4ed8aa4a, 0x5b9cca4f, 0x682e6ff3]"

text \<open>The constants of the rounds 56 to 63.\<close>

definition K256_56_63 :: "uint32 list" where
  "K256_56_63 =
    [0x748f82ee, 0x78a5636f, 0x84c87814, 0x8cc70208,
     0x90befffa, 0xa4506ceb, 0xbef9a3f7, 0xc67178f2]"

definition K256 :: "uint32 list" where
  "K256 =
     K256_0_7 @ K256_8_15 @ K256_16_23 @ K256_24_31 @
     K256_32_39 @ K256_40_47 @ K256_48_55 @ K256_56_63"

definition init256 :: "uint32 list" where
  "init256 =
    [0x6a09e667, 0xbb67ae85, 0x3c6ef372, 0xa54ff53a, 0x510e527f, 0x9b05688c, 0x1f83d9ab, 0x5be0cd19]"

definition be32 :: "byte list \<Rightarrow> uint32" where
  "be32 bs = foldl (\<lambda>w b. push_bit 8 w OR ucast b) 0 bs"

definition bytes_of_be :: "nat \<Rightarrow> 'a::len word \<Rightarrow> byte list" where
  "bytes_of_be n w = map (\<lambda>i. ucast (drop_bit (8 * (n - 1 - i)) w)) [0..<n]"

fun chunks :: "nat \<Rightarrow> nat \<Rightarrow> 'a list \<Rightarrow> 'a list list" where
  "chunks 0 n xs = []"
| "chunks (Suc k) n xs = take n xs # chunks k n (drop n xs)"

definition pad256 :: "byte list \<Rightarrow> byte list" where
  "pad256 msg =
     msg @ [0x80] @ replicate ((64 - (length msg + 9) mod 64) mod 64) 0 @
     bytes_of_be 8 (push_bit 3 (of_nat (length msg) :: 64 word))"

fun schedule :: "nat \<Rightarrow> uint32 list \<Rightarrow> uint32 list" where
  "schedule 0 w = w"
| "schedule (Suc k) w =
     (let i = length w;
          v1 = w ! (i - 2);
          t1 = word_rotr 17 v1 XOR word_rotr 19 v1 XOR drop_bit 10 v1;
          v2 = w ! (i - 15);
          t2 = word_rotr 7 v2 XOR word_rotr 18 v2 XOR drop_bit 3 v2
      in schedule k (w @ [t1 + w ! (i - 7) + t2 + w ! (i - 16)]))"

fun round256 :: "uint32 list \<Rightarrow> uint32 \<times> uint32 \<Rightarrow> uint32 list" where
  "round256 [a, b, c, d, e, f, g, h] (k, w) =
     (let t1 = h + (word_rotr 6 e XOR word_rotr 11 e XOR word_rotr 25 e) +
               ((e AND f) XOR (NOT e AND g)) + k + w;
          t2 = (word_rotr 2 a XOR word_rotr 13 a XOR word_rotr 22 a) +
               ((a AND b) XOR (a AND c) XOR (b AND c))
      in [t1 + t2, a, b, c, d + t1, e, f, g])"
| "round256 s (k, w) = s"

definition block256 :: "uint32 list \<Rightarrow> byte list \<Rightarrow> uint32 list" where
  "block256 hs p =
     (let w = schedule 48 (map be32 (chunks 16 4 p))
      in map2 (+) hs (foldl round256 hs (zip K256 w)))"

definition Sum256 :: "byte list \<Rightarrow> byte list" where
  "Sum256 msg =
     (let p = pad256 msg
      in concat (map (bytes_of_be 4) (foldl block256 init256 (chunks (length p div 64) 64 p))))"

definition hmac_sha256 :: "byte list \<Rightarrow> byte list \<Rightarrow> byte list" where
  "hmac_sha256 key message =
     (let key' = (if length key > 64 then Sum256 key else key);
          block = key' @ replicate (64 - length key') 0;
          ipad = map (\<lambda>b. b XOR 0x36) block;
          opad = map (\<lambda>b. b XOR 0x5c) block
      in Sum256 (opad @ Sum256 (ipad @ message)))"

definition hextable :: string where
  "hextable = ''0123456789abcdef''"

definition EncodeToString :: "byte list \<Rightarrow> string" where
  "EncodeToString src =
     concat (map (\<lambda>v. [hextable ! unat (drop_bit 4 v), hextable ! unat (v AND 0x0f)]) src)"

text \<open>
  The function \<^verbatim>\<open>sign\<close> of the webhook test:
  \<^verbatim>\<open>mac := hmac.New(sha256.New, secret); mac.Write(message);
  return "sha256=" + hex.EncodeToString(mac.Sum(nil))\<close>.
\<close>

definition sign :: "byte list \<Rightarrow> byte list \<Rightarrow> string" where
  "sign message secret = ''sha256='' @ EncodeToString (hmac_sha256 secret message)"

text \<open>The conversion \<^verbatim>\<open>[]byte(s)\<close> of a string.\<close>

definition bytes :: "string \<Rightarrow> byte list" where
  "bytes s = map of_char s"


section \<open>Fixtures of the test file\<close>

text \<open>
  The helpers of \<^verbatim>\<open>TestCalcCounts\<close>: \<^verbatim>\<open>daysAgo\<close> (\<^verbatim>\<open>now.AddDate(0, 0, -days)\<close>, here
  relative to an explicit \<open>now\<close>, a day being 24 hours), \<^verbatim>\<open>ghChangesetCreated\<close> and the struct
  \<^verbatim>\<open>fakeEvent\<close>. A test passes \<^verbatim>\<open>[]*a8n.Changeset\<close> built from fresh structs:
  \<open>heap_of cs\<close> stores the \<open>i\<close>-th changeset at address \<open>i\<close>, and the slice is
  \<open>[0..<length cs]\<close>.
\<close>

definition daysAgo :: "time \<Rightarrow> nat \<Rightarrow> time" where
  "daysAgo now days = now - int days * (24 * Hour)"

text \<open>
  A value of \<^verbatim>\<open>time.Now().Truncate(time.Microsecond)\<close>: an instant of the year 2019,
  in whole seconds since the year 1.
\<close>

definition test_now :: time where
  "test_now = 63710000000 * Second"

definition ghChangesetCreated :: "int64 \<Rightarrow> time \<Rightarrow> Changeset" where
  "ghChangesetCreated i t = \<lparr>ID = i, CreatedAt = Some t\<rparr>"

definition fakeEvent :: "time \<Rightarrow> ChangesetEventKind \<Rightarrow> int64 \<Rightarrow> Event" where
  "fakeEvent t kind i = \<lparr>Timestamp = t, Type = kind, Changeset = i\<rparr>"

definition heap_of :: "Changeset list \<Rightarrow> heap" where
  "heap_of cs p = (if p < length cs then cs ! p else \<lparr>ID = 0, CreatedAt = None\<rparr>)"

section \<open>Auxiliary notions for the proofs\<close>


text \<open>The number of iterations of the first loop of \<^verbatim>\<open>generateTimestamps\<close>.\<close>

definition steps :: "time \<Rightarrow> time \<Rightarrow> nat" where
  "steps start t = (if start \<le> t then nat ((t - start) div (24 * Hour)) + 1 else 0)"

text \<open>
  The instants that the two loops of \<^verbatim>\<open>generateTimestamps\<close> produce as long as \<open>Add\<close>
  stays in range: back from \<open>end\<close> in steps of 24 hours while not before \<open>start\<close>,
  reversed.
\<close>

definition sampled :: "time \<Rightarrow> time \<Rightarrow> time list" where
  "sampled start end = rev (map (\<lambda>k. end - int k * (24 * Hour)) [0..<steps start end])"

text \<open>What \<open>CalcCounts\<close> returns once \<^verbatim>\<open>generateTimestamps\<close> has returned \<open>ts\<close>.\<close>

definition CalcCounts_on ::
  "heap \<Rightarrow> time list \<Rightarrow> ptr list \<Rightarrow> Event list \<Rightarrow> error + ChangesetCounts list" where
  "CalcCounts_on h ts cs es =
     (let counts = map new_counts ts;
          events = sort_key Timestamp es;
          byChangeset = make_byChangeset h events cs []
      in range_byChangeset h byChangeset counts)"

text \<open>Adding the counters of \<open>b\<close> to those of \<open>a\<close>, at the time of \<open>a\<close>.\<close>

definition plus_counts :: "ChangesetCounts \<Rightarrow> ChangesetCounts \<Rightarrow> ChangesetCounts" where
  "plus_counts a b =
     \<lparr>Time = Time a, Total = Total a + Total b, Merged = Merged a + Merged b,
      Closed = Closed a + Closed b, Open = Open a + Open b,
      OpenApproved = OpenApproved a + OpenApproved b,
      OpenChangesRequested = OpenChangesRequested a + OpenChangesRequested b,
      OpenPending = OpenPending a + OpenPending b\<rparr>"

text \<open>
  What one changeset, opened at \<open>openedAt\<close> with events \<open>csEvents\<close>, adds to the
  snapshot of the instant \<open>t\<close>.
\<close>

definition contribution :: "time \<Rightarrow> Event list \<Rightarrow> time \<Rightarrow> ChangesetCounts" where
  "contribution openedAt csEvents t = count_changeset openedAt csEvents (new_counts t)"

text \<open>
  The same for the changeset at address \<open>c\<close>, with its events taken from the sorted
  slice \<open>events\<close>; a changeset without creation time adds nothing.
\<close>

definition changeset_at :: "heap \<Rightarrow> Event list \<Rightarrow> time \<Rightarrow> ptr \<Rightarrow> ChangesetCounts" where
  "changeset_at h events t c =
     (case CreatedAt (h c) of
        None \<Rightarrow> new_counts t
      | Some openedAt \<Rightarrow> contribution openedAt (group_events h events c) t)"

section \<open>The reversal loop and the sampled instants\<close>

lemma reverse_loop_length: "length (reverse_loop k ts) = length ts"
  by (induction k arbitrary: ts) (simp_all add: Let_def)

lemma reverse_loop_nth:
  "k \<le> length ts div 2 \<Longrightarrow> j < length ts \<Longrightarrow>
   reverse_loop k ts ! j =
     (if j < k \<or> length ts - k \<le> j then ts ! (length ts - 1 - j) else ts ! j)"
proof (induction k arbitrary: ts)
  case 0
  then show ?case by simp
next
  case (Suc i)
  let ?n = "length ts"
  let ?opp = "?n - 1 - i"
  let ?ts' = "ts[i := ts ! ?opp, ?opp := ts ! i]"
  have len: "length ?ts' = ?n" by simp
  have i_lt: "i < ?opp" "?opp < ?n" using Suc.prems by linarith+
  have IH: "reverse_loop i ?ts' ! j =
     (if j < i \<or> ?n - i \<le> j then ?ts' ! (?n - 1 - j) else ?ts' ! j)"
    using Suc.IH [of ?ts'] Suc.prems by simp
  show ?case
    using IH i_lt Suc.prems(2)
    by (auto simp: Let_def nth_list_update)
qed

lemma reverse_loop_rev: "reverse_loop (length ts div 2) ts = rev ts"
proof (rule nth_equalityI)
  show "length (reverse_loop (length ts div 2) ts) = length (rev ts)"
    by (simp add: reverse_loop_length)
next
  fix j assume "j < length (reverse_loop (length ts div 2) ts)"
  then have j: "j < length ts" by (simp add: reverse_loop_length)
  have "reverse_loop (length ts div 2) ts ! j = ts ! (length ts - 1 - j)"
  proof (cases "j < length ts div 2 \<or> length ts - length ts div 2 \<le> j")
    case True
    then show ?thesis using reverse_loop_nth [of "length ts div 2" ts j] j by simp
  next
    case False
    then have "length ts - 1 - j = j" using j by linarith
    then show ?thesis using reverse_loop_nth [of "length ts div 2" ts j] j False by simp
  qed
  then show "reverse_loop (length ts div 2) ts ! j = rev ts ! j"
    using j by (simp add: rev_nth)
qed

lemma steps_Suc: "start \<le> t \<Longrightarrow> steps start t = Suc (steps start (t - 24 * Hour))"
proof -
  assume a: "start \<le> t"
  have d: "(t - 24 * Hour - start) div (24 * Hour) = (t - start) div (24 * Hour) - 1"
  proof -
    have "t - 24 * Hour - start = (t - start) + (-1) * (24 * Hour)" by simp
    then show ?thesis by (simp only: div_mult_self2[of "24*Hour"]) (simp add: Hour_def)
  qed
  show ?thesis
  proof (cases "start \<le> t - 24 * Hour")
    case True
    then have "0 \<le> (t - 24 * Hour - start) div (24 * Hour)" by (simp add: Hour_def pos_imp_zdiv_nonneg_iff)
    then show ?thesis using a True d by (simp add: steps_def)
  next
    case False
    then have "(t - start) div (24 * Hour) = 0" using a by (simp add: Hour_def)
    then show ?thesis using a False by (simp add: steps_def)
  qed
qed

lemma day_quo: "quo (- 24 * Hour) Second = - 86400" "rem (- 24 * Hour) Second = 0"
  by (simp_all add: quo_def rem_def Hour_def Second_def)

lemma Add_day_in_range:
  assumes "minTime + 24 * Hour \<le> t"
  shows "Add t (- 24 * Hour) = t - 24 * Hour"
proof -
  have "(- (2 ^ 63) + 86400) * Second \<le> t"
    using assms by (simp add: minTime_def Hour_def Second_def)
  then have "((- (2 ^ 63) + 86400) * Second) div Second \<le> t div Second"
    by (rule zdiv_mono1) (simp add: Second_def)
  then have "- (2 ^ 63) + 86400 \<le> t div Second"
    by (simp add: Second_def)
  then have a: "addSec (t div Second) (- 86400) = t div Second - 86400"
    by (simp add: addSec_def Let_def)
  have n: "0 \<le> t mod Second" "t mod Second < Second" by (simp_all add: Second_def)
  have "Add t (- 24 * Hour) = (t div Second - 86400) * Second + t mod Second"
    using n unfolding Add_def day_quo Let_def by (simp add: a)
  also have "\<dots> = t - 24 * Hour"
    using div_mult_mod_eq [of t Second] by (simp add: Hour_def Second_def algebra_simps)
  finally show ?thesis .
qed

lemma Add_day_saturated: "Add floorTime (- 24 * Hour) = floorTime"
  unfolding Add_def day_quo Let_def
  by (simp add: floorTime_def Second_def addSec_def)

lemma walk_backwards_diverges_aux:
  assumes "walk_backwards start t ts = Some r"
  shows "\<not> (start = floorTime \<and> t = floorTime)"
proof (rule walk_backwards.raw_induct
    [where P = "\<lambda>start t ts r. \<not> (start = floorTime \<and> t = floorTime)", OF _ assms])
  fix walk :: "time \<Rightarrow> time \<Rightarrow> time list \<Rightarrow> time list option"
    and start' t' :: time and ts' r' :: "time list"
  assume IH: "\<And>t ts b y. walk t ts b = Some y \<Longrightarrow> \<not> (t = floorTime \<and> ts = floorTime)"
    and eq: "(if After t' start' \<or> Equal t' start'
              then walk start' (Add t' (- 24 * Hour)) (ts' @ [t']) else Some ts') = Some r'"
  show "\<not> (start' = floorTime \<and> t' = floorTime)"
  proof
    assume s: "start' = floorTime \<and> t' = floorTime"
    have "walk floorTime (Add floorTime (- 24 * Hour)) (ts' @ [floorTime]) = Some r'"
      using eq s by (simp only: Equal_def refl simp_thms if_True)
    then have "walk floorTime floorTime (ts' @ [floorTime]) = Some r'"
      by (simp only: Add_day_saturated)
    then show False using IH by blast
  qed
qed

lemma walk_backwards_diverges: "walk_backwards floorTime floorTime ts = None"
  using walk_backwards_diverges_aux [of floorTime floorTime ts] by (cases "walk_backwards floorTime floorTime ts") auto


lemma walk_backwards_closed:
  assumes "minTime + 24 * Hour \<le> start"
  shows "walk_backwards start t ts =
           Some (ts @ map (\<lambda>k. t - int k * (24 * Hour)) [0..<steps start t])"
proof (induction "steps start t" arbitrary: t ts)
  case 0
  then have "\<not> start \<le> t" by (simp add: steps_def split: if_splits)
  then have c: "\<not> (After t start \<or> Equal t start)" by (auto simp: After_def Equal_def)
  show ?case using c 0 by (subst walk_backwards.simps) simp
next
  case (Suc n)
  then have le: "start \<le> t" by (simp add: steps_def split: if_splits)
  then have c: "After t start \<or> Equal t start" by (auto simp: After_def Equal_def)
  have add: "Add t (- 24 * Hour) = t - 24 * Hour"
    using assms le by (intro Add_day_in_range) simp
  have n: "n = steps start (t - 24 * Hour)"
    using Suc.hyps(2) steps_Suc [OF le] by simp
  have "walk_backwards start t ts = walk_backwards start (t - 24 * Hour) (ts @ [t])"
    using c by (subst walk_backwards.simps) (simp only: add if_True)
  also have "\<dots> = Some ((ts @ [t]) @ map (\<lambda>k. (t - 24 * Hour) - int k * (24 * Hour)) [0..<n])"
    using Suc.hyps(1) [OF n] n by simp
  also have "(ts @ [t]) @ map (\<lambda>k. (t - 24 * Hour) - int k * (24 * Hour)) [0..<n] =
             ts @ map (\<lambda>k. t - int k * (24 * Hour)) [0..<Suc n]"
    unfolding upt_conv_Cons [OF zero_less_Suc] map_Suc_upt [symmetric]
    by (simp add: comp_def algebra_simps)
  finally show ?case using Suc.hyps(2) by simp
qed

lemma walk_backwards_empty: "t < start \<Longrightarrow> walk_backwards start t ts = Some ts"
  by (subst walk_backwards.simps) (simp add: After_def Equal_def)

lemma generateTimestamps_in_range:
  "minTime + 24 * Hour \<le> start \<Longrightarrow> generateTimestamps start end = Some (sampled start end)"
  unfolding generateTimestamps_def sampled_def walk_backwards_closed [of start "end" "[]"]
  by (simp only: option.case append_Nil reverse_loop_rev)

lemma generateTimestamps_empty: "end < start \<Longrightarrow> generateTimestamps start end = Some []"
  by (simp add: generateTimestamps_def walk_backwards_empty)

lemma generateTimestamps_diverges: "generateTimestamps floorTime floorTime = None"
  by (simp add: generateTimestamps_def walk_backwards_diverges)

lemma sampled_empty: "end < start \<Longrightarrow> sampled start end = []"
  by (simp add: sampled_def steps_def)

lemma steps_pos: "start \<le> end \<Longrightarrow> 0 < steps start end"
  by (simp add: steps_def)

lemma sampled_length: "length (sampled start end) = steps start end"
  by (simp add: sampled_def)

lemma sampled_nth:
  "i < steps start end \<Longrightarrow>
   sampled start end ! i = end - int (steps start end - 1 - i) * (24 * Hour)"
  by (simp add: sampled_def rev_nth)

lemma sampled_last: "start \<le> end \<Longrightarrow> last (sampled start end) = end"
  using sampled_nth [of "steps start end - 1" start "end"] steps_pos [of start "end"]
  by (simp add: last_conv_nth sampled_length flip: length_0_conv)

lemma sampled_hd:
  assumes "start \<le> end"
  shows "start \<le> hd (sampled start end)"
proof -
  have pos: "0 < steps start end" using assms by (rule steps_pos)
  then have ne: "sampled start end \<noteq> []"
    using sampled_length [of start "end"] by auto
  have hd_eq: "hd (sampled start end) = end - int (steps start end - 1) * (24 * Hour)"
    using sampled_nth [of 0 start "end"] pos ne by (simp add: hd_conv_nth)
  have n_eq: "int (steps start end - 1) = (end - start) div (24 * Hour)"
    using assms by (simp add: steps_def Hour_def pos_imp_zdiv_nonneg_iff)
  have "(end - start) div (24 * Hour) * (24 * Hour) \<le> end - start"
    by (simp add: Hour_def)
  then show ?thesis using hd_eq n_eq by simp
qed

lemma sampled_step:
  assumes "Suc i < length (sampled start end)"
  shows "sampled start end ! Suc i - sampled start end ! i = 24 * Hour"
proof -
  have i: "Suc i < steps start end" using assms by (simp add: sampled_length)
  then have "int (steps start end - 1 - i) = int (steps start end - 1 - Suc i) + 1" by linarith
  then show ?thesis
    using sampled_nth [of i start "end"] sampled_nth [of "Suc i" start "end"] i
    by (simp add: algebra_simps)
qed

lemma sampled_ascending: "sorted_wrt (<) (sampled start end)"
proof -
  have "sampled start end ! i < sampled start end ! j"
    if "i < j" "j < steps start end" for i j
  proof -
    have "int (steps start end - 1 - j) < int (steps start end - 1 - i)" using that by linarith
    then have "int (steps start end - 1 - j) * (24 * Hour) < int (steps start end - 1 - i) * (24 * Hour)"
      by (simp add: Hour_def)
    then show ?thesis
      using sampled_nth [of i start "end"] sampled_nth [of j start "end"] that
      by simp
  qed
  then show ?thesis
    by (simp add: sorted_wrt_iff_nth_less sampled_length)
qed

section \<open>Counters add up\<close>

lemma plus_counts_sel [simp]:
  "Time (plus_counts a b) = Time a"
  "Total (plus_counts a b) = Total a + Total b"
  "Merged (plus_counts a b) = Merged a + Merged b"
  "Closed (plus_counts a b) = Closed a + Closed b"
  "Open (plus_counts a b) = Open a + Open b"
  "OpenApproved (plus_counts a b) = OpenApproved a + OpenApproved b"
  "OpenChangesRequested (plus_counts a b) = OpenChangesRequested a + OpenChangesRequested b"
  "OpenPending (plus_counts a b) = OpenPending a + OpenPending b"
  by (simp_all add: plus_counts_def)

lemma new_counts_sel [simp]:
  "Time (new_counts t) = t"
  "Total (new_counts t) = 0"
  "Merged (new_counts t) = 0"
  "Closed (new_counts t) = 0"
  "Open (new_counts t) = 0"
  "OpenApproved (new_counts t) = 0"
  "OpenChangesRequested (new_counts t) = 0"
  "OpenPending (new_counts t) = 0"
  by (simp_all add: new_counts_def)

lemma plus_counts_new [simp]: "plus_counts a (new_counts t) = a"
  by (simp add: plus_counts_def)

lemma apply_event_plus: "apply_event (plus_counts a b) e = plus_counts a (apply_event b e)"
  by (cases "Type e") (simp_all add: plus_counts_def)

lemma event_step_plus: "event_step t (plus_counts a b) e = plus_counts a (event_step t b e)"
  by (simp add: event_step_def apply_event_plus del: apply_event.simps)

lemma foldl_event_step_plus:
  "foldl (event_step t) (plus_counts a b) evs = plus_counts a (foldl (event_step t) b evs)"
  by (induction evs arbitrary: b) (simp_all add: event_step_plus)

lemma apply_event_Time [simp]: "Time (apply_event cnt e) = Time cnt"
  by (cases "Type e") simp_all

lemma event_step_Time [simp]: "Time (event_step t cnt e) = Time cnt"
  by (simp add: event_step_def del: apply_event.simps)

lemma foldl_event_step_Time [simp]: "Time (foldl (event_step t) cnt evs) = Time cnt"
  by (induction evs arbitrary: cnt) simp_all

lemma count_changeset_Time [simp]: "Time (count_changeset openedAt evs cnt) = Time cnt"
  by (simp add: count_changeset_def Let_def)

lemma opened_plus:
  "(plus_counts a b)\<lparr>Total := Total a + Total b + 1, Open := Open a + Open b + 1\<rparr> =
   plus_counts a (b\<lparr>Total := Total b + 1, Open := Open b + 1\<rparr>)"
  by (simp add: plus_counts_def)

lemma count_changeset_plus:
  "Time b = Time a \<Longrightarrow>
   count_changeset openedAt evs (plus_counts a b) = plus_counts a (count_changeset openedAt evs b)"
  by (simp add: count_changeset_def Let_def opened_plus foldl_event_step_plus)

lemma count_changeset_contribution:
  "count_changeset openedAt evs cnt = plus_counts cnt (contribution openedAt evs (Time cnt))"
  using count_changeset_plus [of "new_counts (Time cnt)" cnt openedAt evs]
  by (simp add: contribution_def)

lemma contribution_Time [simp]: "Time (contribution openedAt evs t) = t"
  by (simp add: contribution_def)

lemma foldl_plus_counts:
  "foldl plus_counts cnt ds =
     \<lparr>Time = Time cnt, Total = Total cnt + sum_list (map Total ds),
      Merged = Merged cnt + sum_list (map Merged ds),
      Closed = Closed cnt + sum_list (map Closed ds),
      Open = Open cnt + sum_list (map Open ds),
      OpenApproved = OpenApproved cnt + sum_list (map OpenApproved ds),
      OpenChangesRequested = OpenChangesRequested cnt + sum_list (map OpenChangesRequested ds),
      OpenPending = OpenPending cnt + sum_list (map OpenPending ds)\<rparr>"
  by (induction ds arbitrary: cnt) (simp_all add: algebra_simps)

lemma foldl_plus_counts_mset:
  "mset ds = mset ds' \<Longrightarrow> foldl plus_counts cnt ds = foldl plus_counts cnt ds'"
  unfolding foldl_plus_counts
  by (simp flip: sum_mset_sum_list)

lemma foldl_event_step_deltas:
  "foldl (event_step t) cnt evs =
     foldl plus_counts cnt (map (event_step t (new_counts 0)) evs)"
proof (induction evs arbitrary: cnt)
  case Nil
  then show ?case by simp
next
  case (Cons e evs)
  have "event_step t cnt e = plus_counts cnt (event_step t (new_counts 0) e)"
    using event_step_plus [of t cnt "new_counts 0" e] by simp
  then show ?case using Cons.IH by simp
qed

lemma foldl_event_step_mset:
  "mset evs = mset evs' \<Longrightarrow> foldl (event_step t) cnt evs = foldl (event_step t) cnt evs'"
  unfolding foldl_event_step_deltas
  by (rule foldl_plus_counts_mset) simp

lemma count_changeset_mset:
  "mset evs = mset evs' \<Longrightarrow> count_changeset openedAt evs cnt = count_changeset openedAt evs' cnt"
  by (simp add: count_changeset_def Let_def foldl_event_step_mset [of evs evs'])

lemma contribution_mset:
  "mset evs = mset evs' \<Longrightarrow> contribution openedAt evs t = contribution openedAt evs' t"
  by (simp add: contribution_def count_changeset_mset [of evs evs'])

section \<open>The map of events by changeset and the loop over it\<close>

lemma range_byChangeset_closed:
  "range_byChangeset h kvs counts =
     (if \<exists>kv\<in>set kvs. CreatedAt (h (fst kv)) = None then Inl MissingCreationTime
      else Inr (map (\<lambda>cnt. foldl plus_counts cnt
                  (map (\<lambda>kv. contribution (the (CreatedAt (h (fst kv)))) (snd kv) (Time cnt)) kvs))
                counts))"
proof (induction kvs arbitrary: counts)
  case Nil
  then show ?case by simp
next
  case (Cons kv kvs)
  obtain c evs where kv: "kv = (c, evs)" by (cases kv)
  show ?case
  proof (cases "CreatedAt (h c)")
    case None
    then show ?thesis by (simp add: kv ExternalCreatedAt_def)
  next
    case (Some openedAt)
    then show ?thesis
      by (simp add: kv ExternalCreatedAt_def Cons.IH comp_def count_changeset_contribution)
  qed
qed

lemma range_byChangeset_mset:
  assumes "mset kvs = mset kvs'"
  shows "range_byChangeset h kvs counts = range_byChangeset h kvs' counts"
proof -
  have s: "set kvs = set kvs'" using assms by (rule mset_eq_setD)
  have "mset (map f kvs) = mset (map f kvs')" for f :: "ptr \<times> Event list \<Rightarrow> ChangesetCounts"
    using assms by simp
  then have "foldl plus_counts cnt (map f kvs) = foldl plus_counts cnt (map f kvs')"
    for f :: "ptr \<times> Event list \<Rightarrow> ChangesetCounts" and cnt
    by (rule foldl_plus_counts_mset)
  then show ?thesis
    unfolding range_byChangeset_closed s by simp
qed

lemma update_graph:
  "AList.update c (G c) (map (\<lambda>k. (k, G k)) ks) =
     map (\<lambda>k. (k, G k)) (if c \<in> set ks then ks else ks @ [c])"
  by (induction ks) auto

lemma make_byChangeset_keys:
  "distinct ks \<Longrightarrow>
   \<exists>ks'. make_byChangeset h events cs (map (\<lambda>k. (k, group_events h events k)) ks) =
            map (\<lambda>k. (k, group_events h events k)) ks' \<and>
          distinct ks' \<and> set ks' = set ks \<union> set cs"
proof (induction cs arbitrary: ks)
  case Nil
  then show ?case by auto
next
  case (Cons c cs)
  let ?ks = "if c \<in> set ks then ks else ks @ [c]"
  have d: "distinct ?ks" using Cons.prems by simp
  obtain ks' where
    "make_byChangeset h events cs (map (\<lambda>k. (k, group_events h events k)) ?ks) =
       map (\<lambda>k. (k, group_events h events k)) ks'"
    "distinct ks'" "set ks' = set ?ks \<union> set cs"
    using Cons.IH [OF d] by blast
  then show ?case
    by (intro exI [of _ ks']) (auto simp: update_graph [of c "group_events h events"])
qed

lemma foldl_plus_counts_new:
  "distinct ks \<Longrightarrow>
   foldl plus_counts (new_counts t) (map f ks) =
     \<lparr>Time = t, Total = (\<Sum>c\<in>set ks. Total (f c)),
      Merged = (\<Sum>c\<in>set ks. Merged (f c)),
      Closed = (\<Sum>c\<in>set ks. Closed (f c)),
      Open = (\<Sum>c\<in>set ks. Open (f c)),
      OpenApproved = (\<Sum>c\<in>set ks. OpenApproved (f c)),
      OpenChangesRequested = (\<Sum>c\<in>set ks. OpenChangesRequested (f c)),
      OpenPending = (\<Sum>c\<in>set ks. OpenPending (f c))\<rparr>"
  by (simp add: foldl_plus_counts comp_def sum_list_distinct_conv_sum_set)

lemma CalcCounts_on_closed:
  "CalcCounts_on h ts cs es =
     (if \<exists>c\<in>set cs. CreatedAt (h c) = None then Inl MissingCreationTime
      else Inr (map (\<lambda>t.
        \<lparr>Time = t,
         Total = (\<Sum>c\<in>set cs. Total (changeset_at h (sort_key Timestamp es) t c)),
         Merged = (\<Sum>c\<in>set cs. Merged (changeset_at h (sort_key Timestamp es) t c)),
         Closed = (\<Sum>c\<in>set cs. Closed (changeset_at h (sort_key Timestamp es) t c)),
         Open = (\<Sum>c\<in>set cs. Open (changeset_at h (sort_key Timestamp es) t c)),
         OpenApproved = (\<Sum>c\<in>set cs. OpenApproved (changeset_at h (sort_key Timestamp es) t c)),
         OpenChangesRequested =
           (\<Sum>c\<in>set cs. OpenChangesRequested (changeset_at h (sort_key Timestamp es) t c)),
         OpenPending = (\<Sum>c\<in>set cs. OpenPending (changeset_at h (sort_key Timestamp es) t c))\<rparr>)
        ts))"
proof -
  let ?events = "sort_key Timestamp es"
  obtain ks where
    m: "make_byChangeset h ?events cs [] = map (\<lambda>k. (k, group_events h ?events k)) ks"
    and d: "distinct ks" and s: "set ks = set cs"
    using make_byChangeset_keys [of "[]" h ?events cs] by auto
  show ?thesis
  proof (cases "\<exists>c\<in>set cs. CreatedAt (h c) = None")
    case True
    then show ?thesis
      by (simp add: CalcCounts_on_def Let_def m range_byChangeset_closed s)
  next
    case False
    then have all: "\<And>c. c \<in> set cs \<Longrightarrow> \<exists>t. CreatedAt (h c) = Some t" by auto
    have eq: "map (\<lambda>kv. contribution (the (CreatedAt (h (fst kv)))) (snd kv) t)
                (map (\<lambda>k. (k, group_events h ?events k)) ks) =
              map (\<lambda>c. changeset_at h ?events t c) ks" for t
      using all s by (fastforce simp: changeset_at_def)
    have "CalcCounts_on h ts cs es =
            Inr (map (\<lambda>cnt. foldl plus_counts cnt (map (changeset_at h ?events (Time cnt)) ks))
                   (map new_counts ts))"
      using False
      by (simp add: CalcCounts_on_def Let_def m range_byChangeset_closed s eq del: map_map)
    also have "\<dots> = Inr (map (\<lambda>t. foldl plus_counts (new_counts t)
                               (map (changeset_at h ?events t) ks))
                         ts)"
      by (simp add: comp_def)
    finally show ?thesis
      using False by (simp add: foldl_plus_counts_new [OF d] s)
  qed
qed

lemma CalcCounts_on_Time:
  "CalcCounts_on h ts cs es = Inr counts \<Longrightarrow> map Time counts = ts"
  by (auto simp: CalcCounts_on_closed comp_def split: if_splits)

lemma CalcCounts_eq:
  "CalcCounts h start end cs es =
     map_option (\<lambda>ts. CalcCounts_on h ts cs es) (generateTimestamps start end)"
  by (simp add: CalcCounts_def CalcCounts_on_def split: option.splits)

lemma CalcCounts_SomeD:
  assumes "CalcCounts h start end cs es = Some r"
  obtains ts where "generateTimestamps start end = Some ts" and "CalcCounts_on h ts cs es = r"
  using assms unfolding CalcCounts_eq by auto

section \<open>The claims\<close>

lemma CalcCounts_Time:
  assumes "CalcCounts h start end cs es = Some (Inr counts)"
  shows "generateTimestamps start end = Some (map Time counts)"
proof -
  obtain ts where ts: "generateTimestamps start end = Some ts"
    and on: "CalcCounts_on h ts cs es = Inr counts"
    using assms by (rule CalcCounts_SomeD)
  show ?thesis using CalcCounts_on_Time [OF on] ts by simp
qed

lemma CalcCounts_returns:
  "generateTimestamps start end = Some ts \<Longrightarrow>
   CalcCounts h start end cs es = Some (CalcCounts_on h ts cs es)"
  by (simp add: CalcCounts_eq)

text \<open>
  C3, as amended. For \<open>start \<le> end\<close>, with \<open>start\<close> at least 24 hours after the smallest
  instant of \<^verbatim>\<open>time.Time\<close>, \<^verbatim>\<open>generateTimestamps\<close> returns; the instants it returns are
  not empty, ascending, end exactly on \<open>end\<close>, begin at or after \<open>start\<close>, and neighbours
  are exactly 24 hours apart; \<open>CalcCounts\<close> returns as well, and the instants are the
  \<open>Time\<close> fields of its snapshots.
\<close>

theorem generateTimestamps_ends_on_end_in_range:
  assumes "minTime + 24 * Hour \<le> start" and "start \<le> end"
  shows "\<exists>ts. generateTimestamps start end = Some ts \<and>
           ts \<noteq> [] \<and> last ts = end \<and> start \<le> hd ts \<and> sorted_wrt (<) ts \<and>
           (\<forall>i. Suc i < length ts \<longrightarrow> ts ! Suc i - ts ! i = 24 * Hour) \<and>
           (\<forall>h cs es. \<exists>r. CalcCounts h start end cs es = Some r \<and>
              (\<forall>counts. r = Inr counts \<longrightarrow> map Time counts = ts))"
proof -
  have g: "generateTimestamps start end = Some (sampled start end)"
    using assms(1) by (rule generateTimestamps_in_range)
  have ne: "sampled start end \<noteq> []"
    using steps_pos [OF assms(2)] sampled_length [of start "end"] by auto
  have st: "\<forall>i. Suc i < length (sampled start end) \<longrightarrow>
              sampled start end ! Suc i - sampled start end ! i = 24 * Hour"
    using sampled_step by blast
  have cc: "\<forall>h cs es. \<exists>r. CalcCounts h start end cs es = Some r \<and>
              (\<forall>counts. r = Inr counts \<longrightarrow> map Time counts = sampled start end)"
    using CalcCounts_returns [OF g] CalcCounts_on_Time by blast
  show ?thesis
    using g ne sampled_last [OF assms(2)] sampled_hd [OF assms(2)]
      sampled_ascending [of start "end"] st cc
    by blast
qed

text \<open>
  C3 as stated fails for times at the lower end of \<^verbatim>\<open>time.Time\<close>: \<open>floorTime\<close> is an
  instant of Go, going back 24 hours from it gives \<open>floorTime\<close> again, and so with
  \<open>start = end = floorTime\<close> the loop of \<^verbatim>\<open>generateTimestamps\<close> does not return, nor
  does \<open>CalcCounts\<close>.
\<close>

theorem generateTimestamps_floorTime_counterexample:
  "minTime \<le> floorTime \<and> floorTime \<le> maxTime \<and> floorTime \<le> floorTime \<and>
   Add floorTime (- 24 * Hour) = floorTime \<and>
   generateTimestamps floorTime floorTime = None \<and>
   CalcCounts (heap_of []) floorTime floorTime [] [] = None"
proof -
  have "minTime \<le> floorTime" "floorTime \<le> maxTime"
    by (simp_all add: minTime_def maxTime_def floorTime_def Second_def)
  moreover have "CalcCounts (heap_of []) floorTime floorTime [] [] = None"
    by (simp add: CalcCounts_eq generateTimestamps_diverges)
  ultimately show ?thesis
    using Add_day_saturated generateTimestamps_diverges by simp
qed

theorem generateTimestamps_ends_on_end_in_range_witness:
  "minTime + 24 * Hour \<le> 0 \<and> (0::time) \<le> 36 * Hour \<and>
   generateTimestamps 0 (36 * Hour) = Some [12 * Hour, 36 * Hour] \<and>
   last [12 * Hour, 36 * Hour] = 36 * Hour \<and>
   0 \<le> hd [12 * Hour, 36 * Hour] \<and>
   [12 * Hour, 36 * Hour] ! Suc 0 - [12 * Hour, 36 * Hour] ! 0 = 24 * Hour \<and>
   map Time (snapshots (CalcCounts (heap_of [ghChangesetCreated 1 0]) 0 (36 * Hour) [0] [])) =
     [12 * Hour, 36 * Hour]"
proof -
  have r: "minTime + 24 * Hour \<le> 0" by (simp add: minTime_def Hour_def Second_def)
  have le: "(0::time) \<le> 36 * Hour" by (simp add: Hour_def)
  obtain ts where g: "generateTimestamps 0 (36 * Hour) = Some ts"
    and l: "last ts = 36 * Hour" and h: "0 \<le> hd ts"
    and s: "\<forall>i. Suc i < length ts \<longrightarrow> ts ! Suc i - ts ! i = 24 * Hour"
    and c: "\<forall>h cs es. \<exists>r. CalcCounts h 0 (36 * Hour) cs es = Some r \<and>
              (\<forall>counts. r = Inr counts \<longrightarrow> map Time counts = ts)"
    using generateTimestamps_ends_on_end_in_range [OF r le] by blast
  have ex: "generateTimestamps 0 (36 * Hour) = Some [12 * Hour, 36 * Hour]" by code_simp
  have ts: "ts = [12 * Hour, 36 * Hour]" using g ex by simp
  obtain counts where
    run: "CalcCounts (heap_of [ghChangesetCreated 1 0]) 0 (36 * Hour) [0] [] = Some (Inr counts)"
    using CalcCounts_returns [OF ex]
    by (simp add: CalcCounts_on_closed heap_of_def ghChangesetCreated_def)
  have "map Time counts = ts" using c run by (metis option.inject)
  then have m: "map Time (snapshots (CalcCounts (heap_of [ghChangesetCreated 1 0]) 0 (36 * Hour) [0] [])) =
     [12 * Hour, 36 * Hour]"
    by (simp add: run snapshots_def ts)
  have s1: "[12 * Hour, 36 * Hour] ! Suc 0 - [12 * Hour, 36 * Hour] ! 0 = 24 * Hour"
    using s unfolding ts by (simp add: Hour_def)
  show ?thesis using r le ex l h s1 m unfolding ts by blast
qed


lemma ExternalCreatedAt_Inl: "ExternalCreatedAt c = Inl err \<longleftrightarrow> CreatedAt c = None"
  by (cases err) (simp add: ExternalCreatedAt_def split: option.splits)



text \<open>
  C10. When \<open>end\<close> is before \<open>start\<close> no instant is sampled. \<open>CalcCounts\<close> then returns
  the empty list, unless a changeset lacks its creation time: the changesets are still
  visited, and the call fails with \<open>MissingCreationTime\<close>.
\<close>

theorem CalcCounts_empty_window:
  assumes "end < start"
  shows "generateTimestamps start end = Some [] \<and>
         CalcCounts h start end cs es =
           Some (if \<exists>c\<in>set cs. ExternalCreatedAt (h c) = Inl MissingCreationTime
                 then Inl MissingCreationTime else Inr [])"
  using generateTimestamps_empty [OF assms]
  by (simp add: CalcCounts_eq CalcCounts_on_closed ExternalCreatedAt_Inl)

theorem CalcCounts_empty_window_witness:
  "(0::time) < 24 * Hour \<and>
   generateTimestamps (24 * Hour) 0 = Some [] \<and>
   CalcCounts (heap_of [ghChangesetCreated 1 0]) (24 * Hour) 0 [0] [] = Some (Inr []) \<and>
   CalcCounts (heap_of [\<lparr>ID = 1, CreatedAt = None\<rparr>]) (24 * Hour) 0 [0] [] =
     Some (Inl MissingCreationTime)"
proof -
  have lt: "(0::time) < 24 * Hour" by (simp add: Hour_def)
  show ?thesis
    using CalcCounts_empty_window [OF lt, of "heap_of [ghChangesetCreated 1 0]" "[0]" "[]"]
      CalcCounts_empty_window [OF lt, of "heap_of [\<lparr>ID = 1, CreatedAt = None\<rparr>]" "[0]" "[]"] lt
    by (simp add: ExternalCreatedAt_def heap_of_def ghChangesetCreated_def)
qed

lemma apply_event_sum:
  "Open (apply_event x e) + Closed (apply_event x e) + Merged (apply_event x e) =
   Open x + Closed x + Merged x"
  by (cases "Type e") simp_all

lemma apply_event_Total: "Total (apply_event x e) = Total x"
  by (cases "Type e") simp_all

lemma event_step_sum:
  "Open (event_step t x e) + Closed (event_step t x e) + Merged (event_step t x e) =
   Open x + Closed x + Merged x"
  by (simp add: event_step_def apply_event_sum del: apply_event.simps)

lemma event_step_Total: "Total (event_step t x e) = Total x"
  by (simp add: event_step_def apply_event_Total del: apply_event.simps)

lemma foldl_event_step_sum:
  "Open (foldl (event_step t) x evs) + Closed (foldl (event_step t) x evs) +
     Merged (foldl (event_step t) x evs) = Open x + Closed x + Merged x"
  by (induction evs arbitrary: x) (simp_all add: event_step_sum)

lemma foldl_event_step_Total: "Total (foldl (event_step t) x evs) = Total x"
  by (induction evs arbitrary: x) (simp_all add: event_step_Total)

lemma count_changeset_sum:
  assumes "Open x + Closed x + Merged x = Total x"
  shows "Open (count_changeset openedAt evs x) + Closed (count_changeset openedAt evs x) +
           Merged (count_changeset openedAt evs x) = Total (count_changeset openedAt evs x)"
proof (cases "Before openedAt (Time x) \<or> Equal openedAt (Time x)")
  case True
  let ?y = "x\<lparr>Total := Total x + 1, Open := Open x + 1\<rparr>"
  have c: "count_changeset openedAt evs x = foldl (event_step (Time x)) ?y evs"
    using True by (simp add: count_changeset_def Let_def)
  have "Open ?y + Closed ?y + Merged ?y = Total ?y"
    using assms by (simp add: algebra_simps)
  then show ?thesis
    unfolding c foldl_event_step_sum foldl_event_step_Total .
next
  case False
  then show ?thesis using assms by (simp add: count_changeset_def Let_def)
qed

lemma range_byChangeset_sum:
  "range_byChangeset h kvs counts = Inr counts' \<Longrightarrow>
   \<forall>x\<in>set counts. Open x + Closed x + Merged x = Total x \<Longrightarrow>
   \<forall>x\<in>set counts'. Open x + Closed x + Merged x = Total x"
proof (induction kvs arbitrary: counts)
  case Nil
  then show ?case by simp
next
  case (Cons kv kvs)
  obtain c evs where kv: "kv = (c, evs)" by (cases kv)
  obtain openedAt where o: "ExternalCreatedAt (h c) = Inr openedAt"
    using Cons.prems(1) by (cases "ExternalCreatedAt (h c)") (simp_all add: kv)
  have "\<forall>x\<in>set (map (count_changeset openedAt evs) counts).
          Open x + Closed x + Merged x = Total x"
    using Cons.prems(2) by (simp add: count_changeset_sum)
  moreover have "range_byChangeset h kvs (map (count_changeset openedAt evs) counts) = Inr counts'"
    using Cons.prems(1) by (simp add: kv o)
  ultimately show ?case by (rule Cons.IH [rotated])
qed

lemma count_changeset_opened:
  "count_changeset openedAt [] x =
     (if openedAt \<le> Time x then x\<lparr>Total := Total x + 1, Open := Open x + 1\<rparr> else x)"
  by (auto simp: count_changeset_def Let_def Before_def Equal_def)

text \<open>
  C9. In every snapshot that \<open>CalcCounts\<close> returns, \<open>Open + Closed + Merged = Total\<close> in
  the arithmetic of \<^verbatim>\<open>int32\<close>: an opened changeset adds one to \<open>Total\<close> and to \<open>Open\<close>,
  and applying an event keeps \<open>Open + Closed + Merged\<close> and \<open>Total\<close>.
\<close>

theorem CalcCounts_open_closed_merged_total:
  assumes "CalcCounts h start end cs es = Some (Inr counts)" and "cnt \<in> set counts"
  shows "Open cnt + Closed cnt + Merged cnt = Total cnt \<and>
         (\<forall>openedAt x. count_changeset openedAt [] x =
            (if openedAt \<le> Time x then x\<lparr>Total := Total x + 1, Open := Open x + 1\<rparr> else x)) \<and>
         (\<forall>x e. Open (apply_event x e) + Closed (apply_event x e) + Merged (apply_event x e) =
                  Open x + Closed x + Merged x \<and>
                Total (apply_event x e) = Total x)"
proof -
  obtain ts where on: "CalcCounts_on h ts cs es = Inr counts"
    using assms(1) by (rule CalcCounts_SomeD)
  have "\<forall>x\<in>set (map new_counts ts). Open x + Closed x + Merged x = Total x"
    by simp
  then have "\<forall>x\<in>set counts. Open x + Closed x + Merged x = Total x"
    using on range_byChangeset_sum unfolding CalcCounts_on_def Let_def by blast
  then show ?thesis
    using assms(2) count_changeset_opened apply_event_sum apply_event_Total by blast
qed


theorem CalcCounts_open_closed_merged_total_witness:
  "CalcCounts (heap_of [ghChangesetCreated 1 0]) 0 (24 * Hour) [0]
     [fakeEvent (24 * Hour) ChangesetEventKindGitHubClosed 1,
      fakeEvent (24 * Hour) ChangesetEventKindGitHubMerged 1] =
     Some (Inr [\<lparr>Time = 0, Total = 1, Merged = 0, Closed = 0, Open = 1,
            OpenApproved = 0, OpenChangesRequested = 0, OpenPending = 0\<rparr>,
          \<lparr>Time = 24 * Hour, Total = 1, Merged = 1, Closed = 1, Open = - 1,
            OpenApproved = 0, OpenChangesRequested = 0, OpenPending = 0\<rparr>]) \<and>
   Open \<lparr>Time = 24 * Hour, Total = 1, Merged = 1, Closed = 1, Open = - 1,
          OpenApproved = 0, OpenChangesRequested = 0, OpenPending = 0\<rparr> +
   Closed \<lparr>Time = 24 * Hour, Total = 1, Merged = 1, Closed = 1, Open = - 1,
          OpenApproved = 0, OpenChangesRequested = 0, OpenPending = 0\<rparr> +
   Merged \<lparr>Time = 24 * Hour, Total = 1, Merged = 1, Closed = 1, Open = - 1,
          OpenApproved = 0, OpenChangesRequested = 0, OpenPending = 0\<rparr> =
   Total \<lparr>Time = 24 * Hour, Total = 1, Merged = 1, Closed = 1, Open = - 1,
          OpenApproved = 0, OpenChangesRequested = 0, OpenPending = 0\<rparr>"
proof -
  let ?c0 = "\<lparr>Time = 0, Total = 1, Merged = 0, Closed = 0, Open = 1,
            OpenApproved = 0, OpenChangesRequested = 0, OpenPending = 0 :: int32\<rparr>"
  let ?c1 = "\<lparr>Time = 24 * Hour, Total = 1, Merged = 1, Closed = 1, Open = - 1,
            OpenApproved = 0, OpenChangesRequested = 0, OpenPending = 0 :: int32\<rparr>"
  have run: "CalcCounts (heap_of [ghChangesetCreated 1 0]) 0 (24 * Hour) [0]
     [fakeEvent (24 * Hour) ChangesetEventKindGitHubClosed 1,
      fakeEvent (24 * Hour) ChangesetEventKindGitHubMerged 1] = Some (Inr [?c0, ?c1])"
    by code_simp
  have mem: "?c1 \<in> set [?c0, ?c1]" by simp
  show ?thesis
    using CalcCounts_open_closed_merged_total [OF run mem] run by blast
qed

lemma foldl_event_step_filter:
  "foldl (event_step t) x evs = foldl apply_event x (filter (\<lambda>e. Timestamp e \<le> t) evs)"
  by (induction evs arbitrary: x) (simp_all add: event_step_def After_def not_less del: apply_event.simps)

lemma count_changeset_on_or_before:
  "count_changeset openedAt csEvents cnt =
     (if openedAt \<le> Time cnt
      then foldl apply_event (cnt\<lparr>Total := Total cnt + 1, Open := Open cnt + 1\<rparr>)
             (filter (\<lambda>e. Timestamp e \<le> Time cnt) csEvents)
      else cnt)"
  by (auto simp: count_changeset_def Let_def Before_def Equal_def foldl_event_step_filter
      simp del: apply_event.simps)

lemma foldl_apply_event_Total: "Total (foldl apply_event x evs) = Total x"
  by (induction evs arbitrary: x) (simp_all add: apply_event_Total del: apply_event.simps)

lemma changeset_at_Total:
  "CreatedAt (h c) = Some openedAt \<Longrightarrow>
   Total (changeset_at h events t c) = (if openedAt \<le> t then 1 else 0)"
  by (simp add: changeset_at_def contribution_def count_changeset_on_or_before
      foldl_apply_event_Total del: apply_event.simps)

lemma record_eta:
  "\<lparr>Time = Time x, Total = Total x, Merged = Merged x, Closed = Closed x, Open = Open x,
    OpenApproved = OpenApproved x, OpenChangesRequested = OpenChangesRequested x,
    OpenPending = OpenPending x\<rparr> = x"
  by simp

lemma changeset_at_Time [simp]: "Time (changeset_at h events t c) = t"
  by (simp add: changeset_at_def split: option.splits)

lemma CalcCounts_on_single:
  assumes "CreatedAt (h c) = Some openedAt"
  shows "CalcCounts_on h ts [c] es =
           Inr (map (\<lambda>t. changeset_at h (sort_key Timestamp es) t c) ts)"
proof -
  have "\<lparr>Time = t,
         Total = Total (changeset_at h (sort_key Timestamp es) t c),
         Merged = Merged (changeset_at h (sort_key Timestamp es) t c),
         Closed = Closed (changeset_at h (sort_key Timestamp es) t c),
         Open = Open (changeset_at h (sort_key Timestamp es) t c),
         OpenApproved = OpenApproved (changeset_at h (sort_key Timestamp es) t c),
         OpenChangesRequested = OpenChangesRequested (changeset_at h (sort_key Timestamp es) t c),
         OpenPending = OpenPending (changeset_at h (sort_key Timestamp es) t c)\<rparr> =
        changeset_at h (sort_key Timestamp es) t c" for t
    using record_eta [of "changeset_at h (sort_key Timestamp es) t c"] by simp
  then show ?thesis using assms by (simp add: CalcCounts_on_closed)
qed

lemma sum_indicator_card:
  "finite A \<Longrightarrow> (\<Sum>c\<in>A. if P c then 1 else 0) = (of_nat (card {c \<in> A. P c}) :: int32)"
  by (simp flip: sum.inter_filter)

lemma CalcCounts_on_Total:
  assumes "CalcCounts_on h ts cs es = Inr counts" and "i < length counts"
  shows "Total (counts ! i) =
           of_nat (card {c \<in> set cs. \<exists>openedAt. CreatedAt (h c) = Some openedAt \<and>
                                          openedAt \<le> Time (counts ! i)})"
proof -
  have all: "\<forall>c\<in>set cs. \<exists>openedAt. CreatedAt (h c) = Some openedAt"
    using assms(1) by (auto simp: CalcCounts_on_closed split: if_splits)
  have len: "length counts = length (ts)"
    using assms(1) by (auto simp: CalcCounts_on_closed split: if_splits)
  let ?t = "ts ! i"
  have T: "Time (counts ! i) = ?t"
    using assms len by (auto simp: CalcCounts_on_closed split: if_splits)
  have "Total (counts ! i) = (\<Sum>c\<in>set cs. Total (changeset_at h (sort_key Timestamp es) ?t c))"
    using assms len by (auto simp: CalcCounts_on_closed split: if_splits)
  also have "\<dots> = (\<Sum>c\<in>set cs. if (\<exists>openedAt. CreatedAt (h c) = Some openedAt \<and> openedAt \<le> ?t)
                                 then 1 else 0)"
    using all by (intro sum.cong refl) (auto simp: changeset_at_Total)
  also have "\<dots> = of_nat (card {c \<in> set cs. \<exists>openedAt. CreatedAt (h c) = Some openedAt \<and> openedAt \<le> ?t})"
    by (rule sum_indicator_card) simp
  finally show ?thesis by (simp add: T)
qed

text \<open>
  C6. Sampling is on or before. At the instant \<open>Time cnt\<close> a changeset opened at or
  before it adds one to \<open>Total\<close> and to \<open>Open\<close> and then has exactly its events with
  timestamp at or before that instant applied, in their order; a changeset opened later
  leaves the snapshot as it is. For one changeset this gives every snapshot of
  \<open>CalcCounts\<close>, and for any number of changesets \<open>Total\<close> counts those opened at or
  before the instant.
\<close>

theorem CalcCounts_on_or_before:
  "count_changeset openedAt csEvents cnt =
     (if openedAt \<le> Time cnt
      then foldl apply_event (cnt\<lparr>Total := Total cnt + 1, Open := Open cnt + 1\<rparr>)
             (filter (\<lambda>e. Timestamp e \<le> Time cnt) csEvents)
      else cnt) \<and>
   (CreatedAt (h c) = Some openedAt \<longrightarrow>
      CalcCounts h start end [c] es =
        map_option
          (\<lambda>ts. Inr (map (\<lambda>t. if openedAt \<le> t
                       then foldl apply_event ((new_counts t)\<lparr>Total := 1, Open := 1\<rparr>)
                              (filter (\<lambda>e. Timestamp e \<le> t)
                                 (filter (\<lambda>e. Changeset e = ID (h c)) (sort_key Timestamp es)))
                       else new_counts t)
               ts))
          (generateTimestamps start end)) \<and>
   (\<forall>counts i. CalcCounts h start end cs es = Some (Inr counts) \<and> i < length counts \<longrightarrow>
      Total (counts ! i) =
        of_nat (card {c \<in> set cs. \<exists>openedAt. CreatedAt (h c) = Some openedAt \<and>
                                       openedAt \<le> Time (counts ! i)}))"
proof (intro conjI impI allI)
  show "count_changeset openedAt csEvents cnt =
     (if openedAt \<le> Time cnt
      then foldl apply_event (cnt\<lparr>Total := Total cnt + 1, Open := Open cnt + 1\<rparr>)
             (filter (\<lambda>e. Timestamp e \<le> Time cnt) csEvents)
      else cnt)"
    by (rule count_changeset_on_or_before)
next
  assume o: "CreatedAt (h c) = Some openedAt"
  have "changeset_at h (sort_key Timestamp es) t c =
        (if openedAt \<le> t
         then foldl apply_event ((new_counts t)\<lparr>Total := 1, Open := 1\<rparr>)
                (filter (\<lambda>e. Timestamp e \<le> t)
                   (filter (\<lambda>e. Changeset e = ID (h c)) (sort_key Timestamp es)))
         else new_counts t)" for t
    using o
    by (simp add: changeset_at_def contribution_def count_changeset_on_or_before group_events_def
        del: apply_event.simps)
  then show "CalcCounts h start end [c] es =
        map_option
          (\<lambda>ts. Inr (map (\<lambda>t. if openedAt \<le> t
                       then foldl apply_event ((new_counts t)\<lparr>Total := 1, Open := 1\<rparr>)
                              (filter (\<lambda>e. Timestamp e \<le> t)
                                 (filter (\<lambda>e. Changeset e = ID (h c)) (sort_key Timestamp es)))
                       else new_counts t)
               ts))
          (generateTimestamps start end)"
    using CalcCounts_on_single [of h c openedAt _ es] o by (simp add: CalcCounts_eq)
next
  fix counts i
  assume a: "CalcCounts h start end cs es = Some (Inr counts) \<and> i < length counts"
  then obtain ts where "CalcCounts_on h ts cs es = Inr counts"
    using CalcCounts_SomeD by blast
  then show "Total (counts ! i) =
        of_nat (card {c \<in> set cs. \<exists>openedAt. CreatedAt (h c) = Some openedAt \<and>
                                       openedAt \<le> Time (counts ! i)})"
    using a CalcCounts_on_Total by blast
qed


theorem CalcCounts_on_or_before_witness:
  "count_changeset 0
     [fakeEvent (24 * Hour) ChangesetEventKindGitHubMerged 1,
      fakeEvent (24 * Hour + 1) ChangesetEventKindGitHubClosed 1]
     (new_counts (24 * Hour)) =
     \<lparr>Time = 24 * Hour, Total = 1, Merged = 1, Closed = 0, Open = 0,
      OpenApproved = 0, OpenChangesRequested = 0, OpenPending = 0\<rparr> \<and>
   CreatedAt (heap_of [ghChangesetCreated 1 (24 * Hour)] 0) = Some (24 * Hour) \<and>
   CalcCounts (heap_of [ghChangesetCreated 1 (24 * Hour)]) 0 (48 * Hour) [0]
     [fakeEvent (48 * Hour) ChangesetEventKindGitHubMerged 1] =
     Some (Inr [\<lparr>Time = 0, Total = 0, Merged = 0, Closed = 0, Open = 0,
           OpenApproved = 0, OpenChangesRequested = 0, OpenPending = 0\<rparr>,
          \<lparr>Time = 24 * Hour, Total = 1, Merged = 0, Closed = 0, Open = 1,
           OpenApproved = 0, OpenChangesRequested = 0, OpenPending = 0\<rparr>,
          \<lparr>Time = 48 * Hour, Total = 1, Merged = 1, Closed = 0, Open = 0,
           OpenApproved = 0, OpenChangesRequested = 0, OpenPending = 0\<rparr>]) \<and>
   Total \<lparr>Time = 24 * Hour, Total = 1, Merged = 0, Closed = 0, Open = 1,
           OpenApproved = 0, OpenChangesRequested = 0, OpenPending = 0\<rparr> =
     of_nat (card {c \<in> set [0]. \<exists>openedAt.
               CreatedAt (heap_of [ghChangesetCreated 1 (24 * Hour)] c) = Some openedAt \<and>
               openedAt \<le> 24 * Hour})"
proof -
  let ?h = "heap_of [ghChangesetCreated 1 (24 * Hour)]"
  let ?es = "[fakeEvent (48 * Hour) ChangesetEventKindGitHubMerged 1]"
  let ?c0 = "\<lparr>Time = 0, Total = 0, Merged = 0, Closed = 0, Open = 0,
           OpenApproved = 0, OpenChangesRequested = 0, OpenPending = 0 :: int32\<rparr>"
  let ?c1 = "\<lparr>Time = 24 * Hour, Total = 1, Merged = 0, Closed = 0, Open = 1,
           OpenApproved = 0, OpenChangesRequested = 0, OpenPending = 0 :: int32\<rparr>"
  let ?c2 = "\<lparr>Time = 48 * Hour, Total = 1, Merged = 1, Closed = 0, Open = 0,
           OpenApproved = 0, OpenChangesRequested = 0, OpenPending = 0 :: int32\<rparr>"
  note t = CalcCounts_on_or_before
    [where h = ?h and c = 0 and cs = "[0]" and openedAt = "24 * Hour" and start = 0
       and ?end = "48 * Hour" and es = ?es]
  have o: "CreatedAt (?h 0) = Some (24 * Hour)"
    by (simp add: heap_of_def ghChangesetCreated_def)
  have one: "count_changeset 0
     [fakeEvent (24 * Hour) ChangesetEventKindGitHubMerged 1,
      fakeEvent (24 * Hour + 1) ChangesetEventKindGitHubClosed 1]
     (new_counts (24 * Hour)) =
     \<lparr>Time = 24 * Hour, Total = 1, Merged = 1, Closed = 0, Open = 0,
      OpenApproved = 0, OpenChangesRequested = 0, OpenPending = 0\<rparr>"
    using CalcCounts_on_or_before
      [where openedAt = 0 and cnt = "new_counts (24 * Hour)"
         and csEvents = "[fakeEvent (24 * Hour) ChangesetEventKindGitHubMerged 1,
                          fakeEvent (24 * Hour + 1) ChangesetEventKindGitHubClosed 1]",
       THEN conjunct1]
    by (simp add: Hour_def fakeEvent_def new_counts_def)
  have rhs: "map_option
          (\<lambda>ts. Inr (map (\<lambda>t. if 24 * Hour \<le> t
                       then foldl apply_event ((new_counts t)\<lparr>Total := 1, Open := 1\<rparr>)
                              (filter (\<lambda>e. Timestamp e \<le> t)
                                 (filter (\<lambda>e. Changeset e = ID (?h 0)) (sort_key Timestamp ?es)))
                       else new_counts t)
               ts))
          (generateTimestamps 0 (48 * Hour)) =
        Some (Inr [?c0, ?c1, ?c2] :: error + ChangesetCounts list)"
    by code_simp
  have run: "CalcCounts ?h 0 (48 * Hour) [0] ?es = Some (Inr [?c0, ?c1, ?c2])"
    using t [THEN conjunct2, THEN conjunct1] o unfolding rhs by blast
  have "Total ([?c0, ?c1, ?c2] ! 1) =
     of_nat (card {c \<in> set [0]. \<exists>openedAt. CreatedAt (?h c) = Some openedAt \<and>
                                    openedAt \<le> Time ([?c0, ?c1, ?c2] ! 1)})"
    using t [THEN conjunct2, THEN conjunct2] run by force
  then have tot: "Total ?c1 =
     of_nat (card {c \<in> set [0]. \<exists>openedAt. CreatedAt (?h c) = Some openedAt \<and>
                                    openedAt \<le> 24 * Hour})"
    by simp
  show ?thesis using one o run tot by blast
qed

lemma CalcCounts_on_set:
  "set cs' = set cs \<Longrightarrow> CalcCounts_on h ts cs' es = CalcCounts_on h ts cs es"
  by (simp add: CalcCounts_on_closed)

lemma group_events_mset:
  "mset es' = mset es \<Longrightarrow>
   mset (group_events h (sort_key Timestamp es') c) = mset (group_events h (sort_key Timestamp es) c)"
  by (simp add: group_events_def)

lemma changeset_at_mset:
  assumes "mset es' = mset es"
  shows "changeset_at h (sort_key Timestamp es') t c = changeset_at h (sort_key Timestamp es) t c"
proof (cases "CreatedAt (h c)")
  case None
  then show ?thesis by (simp add: changeset_at_def)
next
  case (Some openedAt)
  have "contribution openedAt (group_events h (sort_key Timestamp es') c) t =
        contribution openedAt (group_events h (sort_key Timestamp es) c) t"
    by (rule contribution_mset) (rule group_events_mset [OF assms])
  then show ?thesis by (simp add: changeset_at_def Some)
qed

lemma CalcCounts_on_events_mset:
  assumes "mset es' = mset es"
  shows "CalcCounts_on h ts cs es' = CalcCounts_on h ts cs es"
  unfolding CalcCounts_on_closed changeset_at_mset [OF assms] ..

lemma CalcCounts_events_mset:
  assumes "mset es' = mset es"
  shows "CalcCounts h start end cs es' = CalcCounts h start end cs es"
  unfolding CalcCounts_eq CalcCounts_on_events_mset [OF assms] ..

lemma CalcCounts_on_iteration_order:
  assumes "mset kvs = mset (make_byChangeset h (sort_key Timestamp es) cs [])"
  shows "range_byChangeset h kvs (map new_counts ts) = CalcCounts_on h ts cs es"
  unfolding CalcCounts_on_def Let_def using assms by (rule range_byChangeset_mset)

lemma CalcCounts_on_Inr_D:
  assumes "CalcCounts_on h ts cs es = Inr counts"
  shows "\<forall>c\<in>set cs. \<exists>openedAt. CreatedAt (h c) = Some openedAt"
    and "length counts = length ts"
proof -
  show a: "\<forall>c\<in>set cs. \<exists>openedAt. CreatedAt (h c) = Some openedAt"
  proof (rule ccontr)
    assume "\<not> ?thesis"
    then have "\<exists>c\<in>set cs. CreatedAt (h c) = None" by auto
    then have "CalcCounts_on h ts cs es = Inl MissingCreationTime"
      by (simp only: CalcCounts_on_closed if_True)
    then show False using assms by simp
  qed
  show "length counts = length ts"
    using CalcCounts_on_Time [OF assms] by (metis length_map)
qed

lemma CalcCounts_on_alone:
  assumes "CalcCounts_on h ts cs es = Inr counts" and "c \<in> set cs"
  shows "CalcCounts_on h ts [c] es =
           Inr (map (\<lambda>t. changeset_at h (sort_key Timestamp es) t c) ts)"
proof -
  obtain openedAt where "CreatedAt (h c) = Some openedAt"
    using CalcCounts_on_Inr_D(1) [OF assms(1)] assms(2) by blast
  then show ?thesis by (rule CalcCounts_on_single)
qed

lemma CalcCounts_on_nth:
  assumes "CalcCounts_on h ts cs es = Inr counts" and "i < length counts"
  shows "counts ! i =
     \<lparr>Time = ts ! i,
      Total = (\<Sum>c\<in>set cs. Total (changeset_at h (sort_key Timestamp es) (ts ! i) c)),
      Merged = (\<Sum>c\<in>set cs. Merged (changeset_at h (sort_key Timestamp es) (ts ! i) c)),
      Closed = (\<Sum>c\<in>set cs. Closed (changeset_at h (sort_key Timestamp es) (ts ! i) c)),
      Open = (\<Sum>c\<in>set cs. Open (changeset_at h (sort_key Timestamp es) (ts ! i) c)),
      OpenApproved = (\<Sum>c\<in>set cs. OpenApproved (changeset_at h (sort_key Timestamp es) (ts ! i) c)),
      OpenChangesRequested =
        (\<Sum>c\<in>set cs. OpenChangesRequested (changeset_at h (sort_key Timestamp es) (ts ! i) c)),
      OpenPending = (\<Sum>c\<in>set cs. OpenPending (changeset_at h (sort_key Timestamp es) (ts ! i) c))\<rparr>"
proof -
  have no: "\<not> (\<exists>c\<in>set cs. CreatedAt (h c) = None)"
    using CalcCounts_on_Inr_D(1) [OF assms(1)] by auto
  have len: "i < length ts"
    using CalcCounts_on_Inr_D(2) [OF assms(1)] assms(2) by simp
  have "Inr counts = CalcCounts_on h ts cs es" using assms(1) by simp
  also note CalcCounts_on_closed
  finally have "counts = map (\<lambda>t.
        \<lparr>Time = t,
         Total = (\<Sum>c\<in>set cs. Total (changeset_at h (sort_key Timestamp es) t c)),
         Merged = (\<Sum>c\<in>set cs. Merged (changeset_at h (sort_key Timestamp es) t c)),
         Closed = (\<Sum>c\<in>set cs. Closed (changeset_at h (sort_key Timestamp es) t c)),
         Open = (\<Sum>c\<in>set cs. Open (changeset_at h (sort_key Timestamp es) t c)),
         OpenApproved = (\<Sum>c\<in>set cs. OpenApproved (changeset_at h (sort_key Timestamp es) t c)),
         OpenChangesRequested =
           (\<Sum>c\<in>set cs. OpenChangesRequested (changeset_at h (sort_key Timestamp es) t c)),
         OpenPending = (\<Sum>c\<in>set cs. OpenPending (changeset_at h (sort_key Timestamp es) t c))\<rparr>)
        ts"
    using no by (simp only: if_False sum.inject)
  then show ?thesis using len by (simp only: nth_map)
qed


lemma CalcCounts_alone_nth:
  assumes "generateTimestamps start end = Some ts"
    and "CalcCounts_on h ts cs es = Inr counts" and "i < length counts" and "c \<in> set cs"
  shows "snapshots (CalcCounts h start end [c] es) ! i =
           changeset_at h (sort_key Timestamp es) (ts ! i) c"
  using CalcCounts_on_alone [OF assms(2,4)] CalcCounts_on_Inr_D(2) [OF assms(2)] assms(1,3)
  by (simp add: CalcCounts_eq snapshots_def)

lemma CalcCounts_sum_field:
  assumes "generateTimestamps start end = Some ts"
    and "CalcCounts_on h ts cs es = Inr counts" and "i < length counts"
  shows "(\<Sum>c\<in>set cs. F (snapshots (CalcCounts h start end [c] es) ! i)) =
         (\<Sum>c\<in>set cs. F (changeset_at h (sort_key Timestamp es) (ts ! i) c))"
  by (rule sum.cong [OF refl]) (simp only: CalcCounts_alone_nth [OF assms])

text \<open>
  C4. The result of \<open>CalcCounts\<close> does not depend on the order of the changesets in the
  argument slice, nor on the order in which the entries of the map \<open>byChangeset\<close> are
  visited; and every counter of a returned snapshot is the sum, over the changesets of the
  slice, of that counter in the snapshot computed for the changeset alone. The map is
  keyed by pointer, so the sum ranges over the set of pointers of the slice.
\<close>

theorem CalcCounts_order_independent:
  "(mset cs' = mset cs \<longrightarrow> CalcCounts h start end cs' es = CalcCounts h start end cs es) \<and>
   (mset kvs = mset (make_byChangeset h (sort_key Timestamp es) cs []) \<longrightarrow>
      map_option (\<lambda>ts. range_byChangeset h kvs (map new_counts ts))
        (generateTimestamps start end) =
        CalcCounts h start end cs es) \<and>
   (CalcCounts h start end cs es = Some (Inr counts) \<and> i < length counts \<longrightarrow>
      (\<forall>c\<in>set cs. \<exists>alone. CalcCounts h start end [c] es = Some (Inr alone) \<and>
                                length alone = length counts) \<and>
      Total (counts ! i) = (\<Sum>c\<in>set cs. Total (snapshots (CalcCounts h start end [c] es) ! i)) \<and>
      Merged (counts ! i) = (\<Sum>c\<in>set cs. Merged (snapshots (CalcCounts h start end [c] es) ! i)) \<and>
      Closed (counts ! i) = (\<Sum>c\<in>set cs. Closed (snapshots (CalcCounts h start end [c] es) ! i)) \<and>
      Open (counts ! i) = (\<Sum>c\<in>set cs. Open (snapshots (CalcCounts h start end [c] es) ! i)) \<and>
      OpenApproved (counts ! i) = (\<Sum>c\<in>set cs. OpenApproved (snapshots (CalcCounts h start end [c] es) ! i)) \<and>
      OpenChangesRequested (counts ! i) = (\<Sum>c\<in>set cs. OpenChangesRequested (snapshots (CalcCounts h start end [c] es) ! i)) \<and>
      OpenPending (counts ! i) = (\<Sum>c\<in>set cs. OpenPending (snapshots (CalcCounts h start end [c] es) ! i)))"
proof (intro conjI impI)
  assume "mset cs' = mset cs"
  then have "set cs' = set cs" by (rule mset_eq_setD)
  then show "CalcCounts h start end cs' es = CalcCounts h start end cs es"
    by (simp add: CalcCounts_eq CalcCounts_on_set [of cs' cs])
next
  assume "mset kvs = mset (make_byChangeset h (sort_key Timestamp es) cs [])"
  then show "map_option (\<lambda>ts. range_byChangeset h kvs (map new_counts ts))
        (generateTimestamps start end) =
        CalcCounts h start end cs es"
    by (simp add: CalcCounts_eq CalcCounts_on_iteration_order)
next
  assume a: "CalcCounts h start end cs es = Some (Inr counts) \<and> i < length counts"
  then obtain ts where g: "generateTimestamps start end = Some ts"
    and r: "CalcCounts_on h ts cs es = Inr counts"
    using CalcCounts_SomeD by blast
  show "\<forall>c\<in>set cs. \<exists>alone. CalcCounts h start end [c] es = Some (Inr alone) \<and>
                                length alone = length counts"
  proof
    fix c assume c: "c \<in> set cs"
    have "CalcCounts h start end [c] es =
           Some (Inr (map (\<lambda>t. changeset_at h (sort_key Timestamp es) t c) ts))"
      using CalcCounts_on_alone [OF r c] g by (simp add: CalcCounts_eq)
    then show "\<exists>alone. CalcCounts h start end [c] es = Some (Inr alone) \<and>
                       length alone = length counts"
      using CalcCounts_on_Inr_D(2) [OF r] by simp
  qed
next
  assume a: "CalcCounts h start end cs es = Some (Inr counts) \<and> i < length counts"
  then obtain ts where g: "generateTimestamps start end = Some ts"
    and r: "CalcCounts_on h ts cs es = Inr counts"
    using CalcCounts_SomeD by blast
  have i: "i < length counts" using a by simp
  show "Total (counts ! i) = (\<Sum>c\<in>set cs. Total (snapshots (CalcCounts h start end [c] es) ! i))"
    unfolding CalcCounts_sum_field [OF g r i] by (subst CalcCounts_on_nth [OF r i]) simp
next
  assume a: "CalcCounts h start end cs es = Some (Inr counts) \<and> i < length counts"
  then obtain ts where g: "generateTimestamps start end = Some ts"
    and r: "CalcCounts_on h ts cs es = Inr counts"
    using CalcCounts_SomeD by blast
  have i: "i < length counts" using a by simp
  show "Merged (counts ! i) = (\<Sum>c\<in>set cs. Merged (snapshots (CalcCounts h start end [c] es) ! i))"
    unfolding CalcCounts_sum_field [OF g r i] by (subst CalcCounts_on_nth [OF r i]) simp
next
  assume a: "CalcCounts h start end cs es = Some (Inr counts) \<and> i < length counts"
  then obtain ts where g: "generateTimestamps start end = Some ts"
    and r: "CalcCounts_on h ts cs es = Inr counts"
    using CalcCounts_SomeD by blast
  have i: "i < length counts" using a by simp
  show "Closed (counts ! i) = (\<Sum>c\<in>set cs. Closed (snapshots (CalcCounts h start end [c] es) ! i))"
    unfolding CalcCounts_sum_field [OF g r i] by (subst CalcCounts_on_nth [OF r i]) simp
next
  assume a: "CalcCounts h start end cs es = Some (Inr counts) \<and> i < length counts"
  then obtain ts where g: "generateTimestamps start end = Some ts"
    and r: "CalcCounts_on h ts cs es = Inr counts"
    using CalcCounts_SomeD by blast
  have i: "i < length counts" using a by simp
  show "Open (counts ! i) = (\<Sum>c\<in>set cs. Open (snapshots (CalcCounts h start end [c] es) ! i))"
    unfolding CalcCounts_sum_field [OF g r i] by (subst CalcCounts_on_nth [OF r i]) simp
next
  assume a: "CalcCounts h start end cs es = Some (Inr counts) \<and> i < length counts"
  then obtain ts where g: "generateTimestamps start end = Some ts"
    and r: "CalcCounts_on h ts cs es = Inr counts"
    using CalcCounts_SomeD by blast
  have i: "i < length counts" using a by simp
  show "OpenApproved (counts ! i) = (\<Sum>c\<in>set cs. OpenApproved (snapshots (CalcCounts h start end [c] es) ! i))"
    unfolding CalcCounts_sum_field [OF g r i] by (subst CalcCounts_on_nth [OF r i]) simp
next
  assume a: "CalcCounts h start end cs es = Some (Inr counts) \<and> i < length counts"
  then obtain ts where g: "generateTimestamps start end = Some ts"
    and r: "CalcCounts_on h ts cs es = Inr counts"
    using CalcCounts_SomeD by blast
  have i: "i < length counts" using a by simp
  show "OpenChangesRequested (counts ! i) = (\<Sum>c\<in>set cs. OpenChangesRequested (snapshots (CalcCounts h start end [c] es) ! i))"
    unfolding CalcCounts_sum_field [OF g r i] by (subst CalcCounts_on_nth [OF r i]) simp
next
  assume a: "CalcCounts h start end cs es = Some (Inr counts) \<and> i < length counts"
  then obtain ts where g: "generateTimestamps start end = Some ts"
    and r: "CalcCounts_on h ts cs es = Inr counts"
    using CalcCounts_SomeD by blast
  have i: "i < length counts" using a by simp
  show "OpenPending (counts ! i) = (\<Sum>c\<in>set cs. OpenPending (snapshots (CalcCounts h start end [c] es) ! i))"
    unfolding CalcCounts_sum_field [OF g r i] by (subst CalcCounts_on_nth [OF r i]) simp
qed

theorem CalcCounts_order_independent_witness:
  "mset [1, 0 :: ptr] = mset [0, 1] \<and>
   CalcCounts (heap_of [ghChangesetCreated 1 0, ghChangesetCreated 2 (24 * Hour)]) 0 (48 * Hour) [1, 0]
     [fakeEvent (24 * Hour) ChangesetEventKindGitHubMerged 1,
      fakeEvent (48 * Hour) ChangesetEventKindGitHubMerged 2] =
   CalcCounts (heap_of [ghChangesetCreated 1 0, ghChangesetCreated 2 (24 * Hour)]) 0 (48 * Hour) [0, 1]
     [fakeEvent (24 * Hour) ChangesetEventKindGitHubMerged 1,
      fakeEvent (48 * Hour) ChangesetEventKindGitHubMerged 2] \<and>
   mset [(1, [fakeEvent (48 * Hour) ChangesetEventKindGitHubMerged 2]), (0, [fakeEvent (24 * Hour) ChangesetEventKindGitHubMerged 1])] =
     mset (make_byChangeset (heap_of [ghChangesetCreated 1 0, ghChangesetCreated 2 (24 * Hour)])
       (sort_key Timestamp [fakeEvent (24 * Hour) ChangesetEventKindGitHubMerged 1,
      fakeEvent (48 * Hour) ChangesetEventKindGitHubMerged 2]) [0, 1] []) \<and>
   map_option
     (\<lambda>ts. range_byChangeset (heap_of [ghChangesetCreated 1 0, ghChangesetCreated 2 (24 * Hour)])
        [(1, [fakeEvent (48 * Hour) ChangesetEventKindGitHubMerged 2]), (0, [fakeEvent (24 * Hour) ChangesetEventKindGitHubMerged 1])]
        (map new_counts ts))
     (generateTimestamps 0 (48 * Hour)) =
   CalcCounts (heap_of [ghChangesetCreated 1 0, ghChangesetCreated 2 (24 * Hour)]) 0 (48 * Hour) [0, 1]
     [fakeEvent (24 * Hour) ChangesetEventKindGitHubMerged 1,
      fakeEvent (48 * Hour) ChangesetEventKindGitHubMerged 2] \<and>
   CalcCounts (heap_of [ghChangesetCreated 1 0, ghChangesetCreated 2 (24 * Hour)]) 0 (48 * Hour) [0, 1]
     [fakeEvent (24 * Hour) ChangesetEventKindGitHubMerged 1,
      fakeEvent (48 * Hour) ChangesetEventKindGitHubMerged 2] =
     Some (Inr [\<lparr>Time = 0, Total = 1, Merged = 0, Closed = 0, Open = 1,
        OpenApproved = 0, OpenChangesRequested = 0, OpenPending = 0\<rparr>,
      \<lparr>Time = 24 * Hour, Total = 2, Merged = 1, Closed = 0, Open = 1,
        OpenApproved = 0, OpenChangesRequested = 0, OpenPending = 0\<rparr>,
      \<lparr>Time = 48 * Hour, Total = 2, Merged = 2, Closed = 0, Open = 0,
        OpenApproved = 0, OpenChangesRequested = 0, OpenPending = 0\<rparr>]) \<and>
   2 < length [\<lparr>Time = 0, Total = 1, Merged = 0, Closed = 0, Open = 1,
        OpenApproved = 0, OpenChangesRequested = 0, OpenPending = 0\<rparr>,
      \<lparr>Time = 24 * Hour, Total = 2, Merged = 1, Closed = 0, Open = 1,
        OpenApproved = 0, OpenChangesRequested = 0, OpenPending = 0\<rparr>,
      \<lparr>Time = 48 * Hour, Total = 2, Merged = 2, Closed = 0, Open = 0,
        OpenApproved = 0, OpenChangesRequested = 0, OpenPending = 0\<rparr>] \<and>
   Total ([\<lparr>Time = 0, Total = 1, Merged = 0, Closed = 0, Open = 1,
        OpenApproved = 0, OpenChangesRequested = 0, OpenPending = 0\<rparr>,
      \<lparr>Time = 24 * Hour, Total = 2, Merged = 1, Closed = 0, Open = 1,
        OpenApproved = 0, OpenChangesRequested = 0, OpenPending = 0\<rparr>,
      \<lparr>Time = 48 * Hour, Total = 2, Merged = 2, Closed = 0, Open = 0,
        OpenApproved = 0, OpenChangesRequested = 0, OpenPending = 0\<rparr>] ! 2) =
     (\<Sum>c\<in>set [0, 1]. Total (snapshots (CalcCounts (heap_of [ghChangesetCreated 1 0, ghChangesetCreated 2 (24 * Hour)]) 0 (48 * Hour) [c]
       [fakeEvent (24 * Hour) ChangesetEventKindGitHubMerged 1,
      fakeEvent (48 * Hour) ChangesetEventKindGitHubMerged 2]) ! 2)) \<and>
   Merged ([\<lparr>Time = 0, Total = 1, Merged = 0, Closed = 0, Open = 1,
        OpenApproved = 0, OpenChangesRequested = 0, OpenPending = 0\<rparr>,
      \<lparr>Time = 24 * Hour, Total = 2, Merged = 1, Closed = 0, Open = 1,
        OpenApproved = 0, OpenChangesRequested = 0, OpenPending = 0\<rparr>,
      \<lparr>Time = 48 * Hour, Total = 2, Merged = 2, Closed = 0, Open = 0,
        OpenApproved = 0, OpenChangesRequested = 0, OpenPending = 0\<rparr>] ! 2) =
     (\<Sum>c\<in>set [0, 1]. Merged (snapshots (CalcCounts (heap_of [ghChangesetCreated 1 0, ghChangesetCreated 2 (24 * Hour)]) 0 (48 * Hour) [c]
       [fakeEvent (24 * Hour) ChangesetEventKindGitHubMerged 1,
      fakeEvent (48 * Hour) ChangesetEventKindGitHubMerged 2]) ! 2)) \<and>
   Closed ([\<lparr>Time = 0, Total = 1, Merged = 0, Closed = 0, Open = 1,
        OpenApproved = 0, OpenChangesRequested = 0, OpenPending = 0\<rparr>,
      \<lparr>Time = 24 * Hour, Total = 2, Merged = 1, Closed = 0, Open = 1,
        OpenApproved = 0, OpenChangesRequested = 0, OpenPending = 0\<rparr>,
      \<lparr>Time = 48 * Hour, Total = 2, Merged = 2, Closed = 0, Open = 0,
        OpenApproved = 0, OpenChangesRequested = 0, OpenPending = 0\<rparr>] ! 2) =
     (\<Sum>c\<in>set [0, 1]. Closed (snapshots (CalcCounts (heap_of [ghChangesetCreated 1 0, ghChangesetCreated 2 (24 * Hour)]) 0 (48 * Hour) [c]
       [fakeEvent (24 * Hour) ChangesetEventKindGitHubMerged 1,
      fakeEvent (48 * Hour) ChangesetEventKindGitHubMerged 2]) ! 2)) \<and>
   Open ([\<lparr>Time = 0, Total = 1, Merged = 0, Closed = 0, Open = 1,
        OpenApproved = 0, OpenChangesRequested = 0, OpenPending = 0\<rparr>,
      \<lparr>Time = 24 * Hour, Total = 2, Merged = 1, Closed = 0, Open = 1,
        OpenApproved = 0, OpenChangesRequested = 0, OpenPending = 0\<rparr>,
      \<lparr>Time = 48 * Hour, Total = 2, Merged = 2, Closed = 0, Open = 0,
        OpenApproved = 0, OpenChangesRequested = 0, OpenPending = 0\<rparr>] ! 2) =
     (\<Sum>c\<in>set [0, 1]. Open (snapshots (CalcCounts (heap_of [ghChangesetCreated 1 0, ghChangesetCreated 2 (24 * Hour)]) 0 (48 * Hour) [c]
       [fakeEvent (24 * Hour) ChangesetEventKindGitHubMerged 1,
      fakeEvent (48 * Hour) ChangesetEventKindGitHubMerged 2]) ! 2)) \<and>
   OpenApproved ([\<lparr>Time = 0, Total = 1, Merged = 0, Closed = 0, Open = 1,
        OpenApproved = 0, OpenChangesRequested = 0, OpenPending = 0\<rparr>,
      \<lparr>Time = 24 * Hour, Total = 2, Merged = 1, Closed = 0, Open = 1,
        OpenApproved = 0, OpenChangesRequested = 0, OpenPending = 0\<rparr>,
      \<lparr>Time = 48 * Hour, Total = 2, Merged = 2, Closed = 0, Open = 0,
        OpenApproved = 0, OpenChangesRequested = 0, OpenPending = 0\<rparr>] ! 2) =
     (\<Sum>c\<in>set [0, 1]. OpenApproved (snapshots (CalcCounts (heap_of [ghChangesetCreated 1 0, ghChangesetCreated 2 (24 * Hour)]) 0 (48 * Hour) [c]
       [fakeEvent (24 * Hour) ChangesetEventKindGitHubMerged 1,
      fakeEvent (48 * Hour) ChangesetEventKindGitHubMerged 2]) ! 2)) \<and>
   OpenChangesRequested ([\<lparr>Time = 0, Total = 1, Merged = 0, Closed = 0, Open = 1,
        OpenApproved = 0, OpenChangesRequested = 0, OpenPending = 0\<rparr>,
      \<lparr>Time = 24 * Hour, Total = 2, Merged = 1, Closed = 0, Open = 1,
        OpenApproved = 0, OpenChangesRequested = 0, OpenPending = 0\<rparr>,
      \<lparr>Time = 48 * Hour, Total = 2, Merged = 2, Closed = 0, Open = 0,
        OpenApproved = 0, OpenChangesRequested = 0, OpenPending = 0\<rparr>] ! 2) =
     (\<Sum>c\<in>set [0, 1]. OpenChangesRequested (snapshots (CalcCounts (heap_of [ghChangesetCreated 1 0, ghChangesetCreated 2 (24 * Hour)]) 0 (48 * Hour) [c]
       [fakeEvent (24 * Hour) ChangesetEventKindGitHubMerged 1,
      fakeEvent (48 * Hour) ChangesetEventKindGitHubMerged 2]) ! 2)) \<and>
   OpenPending ([\<lparr>Time = 0, Total = 1, Merged = 0, Closed = 0, Open = 1,
        OpenApproved = 0, OpenChangesRequested = 0, OpenPending = 0\<rparr>,
      \<lparr>Time = 24 * Hour, Total = 2, Merged = 1, Closed = 0, Open = 1,
        OpenApproved = 0, OpenChangesRequested = 0, OpenPending = 0\<rparr>,
      \<lparr>Time = 48 * Hour, Total = 2, Merged = 2, Closed = 0, Open = 0,
        OpenApproved = 0, OpenChangesRequested = 0, OpenPending = 0\<rparr>] ! 2) =
     (\<Sum>c\<in>set [0, 1]. OpenPending (snapshots (CalcCounts (heap_of [ghChangesetCreated 1 0, ghChangesetCreated 2 (24 * Hour)]) 0 (48 * Hour) [c]
       [fakeEvent (24 * Hour) ChangesetEventKindGitHubMerged 1,
      fakeEvent (48 * Hour) ChangesetEventKindGitHubMerged 2]) ! 2))"
proof -
  let ?h = "(heap_of [ghChangesetCreated 1 0, ghChangesetCreated 2 (24 * Hour)])"
  let ?es = "[fakeEvent (24 * Hour) ChangesetEventKindGitHubMerged 1,
      fakeEvent (48 * Hour) ChangesetEventKindGitHubMerged 2]"
  let ?counts = "[\<lparr>Time = 0, Total = 1, Merged = 0, Closed = 0, Open = 1,
        OpenApproved = 0, OpenChangesRequested = 0, OpenPending = 0\<rparr>,
      \<lparr>Time = 24 * Hour, Total = 2, Merged = 1, Closed = 0, Open = 1,
        OpenApproved = 0, OpenChangesRequested = 0, OpenPending = 0\<rparr>,
      \<lparr>Time = 48 * Hour, Total = 2, Merged = 2, Closed = 0, Open = 0,
        OpenApproved = 0, OpenChangesRequested = 0, OpenPending = 0\<rparr>]"
  let ?kvs = "[(1, [fakeEvent (48 * Hour) ChangesetEventKindGitHubMerged 2]), (0, [fakeEvent (24 * Hour) ChangesetEventKindGitHubMerged 1])]"
  note t = CalcCounts_order_independent
    [where h = ?h and start = 0 and ?end = "48 * Hour" and cs = "[0, 1]" and cs' = "[1, 0]"
       and es = ?es and kvs = ?kvs and counts = ?counts and i = 2]
  have p: "mset [1, 0 :: ptr] = mset [0, 1]" by simp
  have m: "make_byChangeset ?h (sort_key Timestamp ?es) [0, 1] [] =
             [(0, [fakeEvent (24 * Hour) ChangesetEventKindGitHubMerged 1]), (1, [fakeEvent (48 * Hour) ChangesetEventKindGitHubMerged 2])]"
    by code_simp
  have k: "mset ?kvs = mset (make_byChangeset ?h (sort_key Timestamp ?es) [0, 1] [])"
    unfolding m by simp
  have run: "CalcCounts ?h 0 (48 * Hour) [0, 1] ?es = Some (Inr ?counts)"
    by code_simp
  have len: "2 < length ?counts" by simp
  show ?thesis
    using t p k run len by blast
qed

lemma sampled_days:
  "sampled (daysAgo now n) now = map (\<lambda>k. daysAgo now (n - k)) [0..<Suc n]"
proof -
  have s: "steps (daysAgo now n) now = Suc n"
    by (simp add: steps_def daysAgo_def Hour_def)
  show ?thesis
  proof (rule nth_equalityI)
    show "length (sampled (daysAgo now n) now) =
          length (map (\<lambda>k. daysAgo now (n - k)) [0..<Suc n])"
      by (simp add: sampled_length s)
  next
    fix i assume "i < length (sampled (daysAgo now n) now)"
    then have i: "i < Suc n" by (simp add: sampled_length s)
    then have "sampled (daysAgo now n) now ! i = now - int (n - i) * (24 * Hour)"
      using sampled_nth [of i "daysAgo now n" now] by (simp add: s)
    then show "sampled (daysAgo now n) now ! i =
               map (\<lambda>k. daysAgo now (n - k)) [0..<Suc n] ! i"
      using i by (simp add: daysAgo_def nth_map_upt del: upt_Suc)
  qed
qed

lemma generateTimestamps_2_days:
  assumes "minTime + 24 * Hour \<le> daysAgo now 2"
  shows "generateTimestamps (daysAgo now 2) now =
           Some [daysAgo now 2, daysAgo now 1, daysAgo now 0]"
  unfolding generateTimestamps_in_range [OF assms]
  by (simp add: sampled_days numeral_2_eq_2)

lemma generateTimestamps_4_days:
  assumes "minTime + 24 * Hour \<le> daysAgo now 4"
  shows "generateTimestamps (daysAgo now 4) now =
           Some [daysAgo now 4, daysAgo now 3, daysAgo now 2, daysAgo now 1, daysAgo now 0]"
proof -
  have "[0..<Suc 4] = [0, 1, 2, 3, 4]" by code_simp
  then show ?thesis
    unfolding generateTimestamps_in_range [OF assms] by (simp add: sampled_days del: upt_Suc)
qed

lemmas test_defs =
  CalcCounts_on_def group_events_def
  count_changeset_def event_step_def new_counts_def heap_of_def ghChangesetCreated_def
  fakeEvent_def ExternalCreatedAt_def Before_def After_def Equal_def daysAgo_def Hour_def

lemma test_now_in_range:
  "minTime + 24 * Hour \<le> daysAgo test_now 2" "minTime + 24 * Hour \<le> daysAgo test_now 4"
  by (simp_all add: minTime_def Hour_def Second_def daysAgo_def test_now_def)

lemma CalcCounts_merged_closed:
  assumes "minTime + 24 * Hour \<le> daysAgo now 2"
  shows "CalcCounts (heap_of [ghChangesetCreated 1 (daysAgo now 2)]) (daysAgo now 2) now [0]
     [fakeEvent (daysAgo now 1) ChangesetEventKindGitHubMerged 1,
      fakeEvent (daysAgo now 1) ChangesetEventKindGitHubClosed 1] =
   Some (Inr [\<lparr>Time = daysAgo now 2, Total = 1, Merged = 0, Closed = 0, Open = 1,
          OpenApproved = 0, OpenChangesRequested = 0, OpenPending = 0\<rparr>,
        \<lparr>Time = daysAgo now 1, Total = 1, Merged = 1, Closed = 1, Open = - 1,
          OpenApproved = 0, OpenChangesRequested = 0, OpenPending = 0\<rparr>,
        \<lparr>Time = daysAgo now 0, Total = 1, Merged = 1, Closed = 1, Open = - 1,
          OpenApproved = 0, OpenChangesRequested = 0, OpenPending = 0\<rparr>])"
  unfolding CalcCounts_eq generateTimestamps_2_days [OF assms]
  by (simp add: test_defs)

lemma CalcCounts_closed_merged:
  assumes "minTime + 24 * Hour \<le> daysAgo now 2"
  shows "CalcCounts (heap_of [ghChangesetCreated 1 (daysAgo now 2)]) (daysAgo now 2) now [0]
     [fakeEvent (daysAgo now 1) ChangesetEventKindGitHubClosed 1,
      fakeEvent (daysAgo now 1) ChangesetEventKindGitHubMerged 1] =
   Some (Inr [\<lparr>Time = daysAgo now 2, Total = 1, Merged = 0, Closed = 0, Open = 1,
          OpenApproved = 0, OpenChangesRequested = 0, OpenPending = 0\<rparr>,
        \<lparr>Time = daysAgo now 1, Total = 1, Merged = 1, Closed = 1, Open = - 1,
          OpenApproved = 0, OpenChangesRequested = 0, OpenPending = 0\<rparr>,
        \<lparr>Time = daysAgo now 0, Total = 1, Merged = 1, Closed = 1, Open = - 1,
          OpenApproved = 0, OpenChangesRequested = 0, OpenPending = 0\<rparr>])"
  unfolding CalcCounts_eq generateTimestamps_2_days [OF assms]
  by (simp add: test_defs)

text \<open>
  C1. The tests "changeset merged and closed at same time" and "... reversed order in slice"
  of \<^verbatim>\<open>TestCalcCounts\<close>, for any \<open>now\<close> whose window lies at least 24 hours after the
  smallest instant: the tests want \<open>Merged = 1\<close>, \<open>Closed = 0\<close> and \<open>Open = 0\<close> from the day
  of the two events on. \<open>CalcCounts\<close> applies both events, in either order of the input:
  \<open>Merged = 1\<close>, \<open>Closed = 1\<close> and \<open>Open = -1\<close>.
\<close>

theorem CalcCounts_merged_and_closed_at_same_time:
  assumes "minTime + 24 * Hour \<le> daysAgo now 2"
  shows "CalcCounts (heap_of [ghChangesetCreated 1 (daysAgo now 2)]) (daysAgo now 2) now [0]
     [fakeEvent (daysAgo now 1) ChangesetEventKindGitHubMerged 1,
      fakeEvent (daysAgo now 1) ChangesetEventKindGitHubClosed 1] =
   Some (Inr [\<lparr>Time = daysAgo now 2, Total = 1, Merged = 0, Closed = 0, Open = 1,
          OpenApproved = 0, OpenChangesRequested = 0, OpenPending = 0\<rparr>,
        \<lparr>Time = daysAgo now 1, Total = 1, Merged = 1, Closed = 1, Open = - 1,
          OpenApproved = 0, OpenChangesRequested = 0, OpenPending = 0\<rparr>,
        \<lparr>Time = daysAgo now 0, Total = 1, Merged = 1, Closed = 1, Open = - 1,
          OpenApproved = 0, OpenChangesRequested = 0, OpenPending = 0\<rparr>]) \<and>
   CalcCounts (heap_of [ghChangesetCreated 1 (daysAgo now 2)]) (daysAgo now 2) now [0]
     [fakeEvent (daysAgo now 1) ChangesetEventKindGitHubClosed 1,
      fakeEvent (daysAgo now 1) ChangesetEventKindGitHubMerged 1] =
   Some (Inr [\<lparr>Time = daysAgo now 2, Total = 1, Merged = 0, Closed = 0, Open = 1,
          OpenApproved = 0, OpenChangesRequested = 0, OpenPending = 0\<rparr>,
        \<lparr>Time = daysAgo now 1, Total = 1, Merged = 1, Closed = 1, Open = - 1,
          OpenApproved = 0, OpenChangesRequested = 0, OpenPending = 0\<rparr>,
        \<lparr>Time = daysAgo now 0, Total = 1, Merged = 1, Closed = 1, Open = - 1,
          OpenApproved = 0, OpenChangesRequested = 0, OpenPending = 0\<rparr>])"
  using CalcCounts_merged_closed [OF assms] CalcCounts_closed_merged [OF assms] by (rule conjI)

theorem CalcCounts_merged_and_closed_at_same_time_witness:
  "minTime + 24 * Hour \<le> daysAgo test_now 2 \<and>
   CalcCounts (heap_of [ghChangesetCreated 1 (daysAgo test_now 2)]) (daysAgo test_now 2) test_now [0]
     [fakeEvent (daysAgo test_now 1) ChangesetEventKindGitHubMerged 1,
      fakeEvent (daysAgo test_now 1) ChangesetEventKindGitHubClosed 1] =
   Some (Inr [\<lparr>Time = daysAgo test_now 2, Total = 1, Merged = 0, Closed = 0, Open = 1,
          OpenApproved = 0, OpenChangesRequested = 0, OpenPending = 0\<rparr>,
        \<lparr>Time = daysAgo test_now 1, Total = 1, Merged = 1, Closed = 1, Open = - 1,
          OpenApproved = 0, OpenChangesRequested = 0, OpenPending = 0\<rparr>,
        \<lparr>Time = daysAgo test_now 0, Total = 1, Merged = 1, Closed = 1, Open = - 1,
          OpenApproved = 0, OpenChangesRequested = 0, OpenPending = 0\<rparr>]) \<and>
   CalcCounts (heap_of [ghChangesetCreated 1 (daysAgo test_now 2)]) (daysAgo test_now 2) test_now [0]
     [fakeEvent (daysAgo test_now 1) ChangesetEventKindGitHubClosed 1,
      fakeEvent (daysAgo test_now 1) ChangesetEventKindGitHubMerged 1] =
   Some (Inr [\<lparr>Time = daysAgo test_now 2, Total = 1, Merged = 0, Closed = 0, Open = 1,
          OpenApproved = 0, OpenChangesRequested = 0, OpenPending = 0\<rparr>,
        \<lparr>Time = daysAgo test_now 1, Total = 1, Merged = 1, Closed = 1, Open = - 1,
          OpenApproved = 0, OpenChangesRequested = 0, OpenPending = 0\<rparr>,
        \<lparr>Time = daysAgo test_now 0, Total = 1, Merged = 1, Closed = 1, Open = - 1,
          OpenApproved = 0, OpenChangesRequested = 0, OpenPending = 0\<rparr>])"
  using test_now_in_range(1)
    CalcCounts_merged_and_closed_at_same_time [OF test_now_in_range(1)]
  by (rule conjI)

text \<open>
  C7. On the input of the same test the counter \<open>Open\<close> of the second and of the third
  snapshot, read as the signed \<^verbatim>\<open>int32\<close> it is, is \<open>-1\<close>.
\<close>

theorem CalcCounts_negative_open:
  assumes "minTime + 24 * Hour \<le> daysAgo now 2"
  shows "map (\<lambda>cnt. sint (Open cnt))
     (snapshots (CalcCounts (heap_of [ghChangesetCreated 1 (daysAgo now 2)]) (daysAgo now 2) now [0]
     [fakeEvent (daysAgo now 1) ChangesetEventKindGitHubMerged 1,
      fakeEvent (daysAgo now 1) ChangesetEventKindGitHubClosed 1])) =
   [1, - 1, - 1]"
  unfolding CalcCounts_merged_closed [OF assms] by (simp add: snapshots_def)

theorem CalcCounts_negative_open_witness:
  "minTime + 24 * Hour \<le> daysAgo test_now 2 \<and>
   map (\<lambda>cnt. sint (Open cnt))
     (snapshots (CalcCounts (heap_of [ghChangesetCreated 1 (daysAgo test_now 2)]) (daysAgo test_now 2) test_now [0]
     [fakeEvent (daysAgo test_now 1) ChangesetEventKindGitHubMerged 1,
      fakeEvent (daysAgo test_now 1) ChangesetEventKindGitHubClosed 1])) =
   [1, - 1, - 1]"
  using test_now_in_range(1) CalcCounts_negative_open [OF test_now_in_range(1)]
  by (rule conjI)

lemma apply_event_review [simp]:
  "OpenApproved (apply_event x e) = OpenApproved x"
  "OpenChangesRequested (apply_event x e) = OpenChangesRequested x"
  "OpenPending (apply_event x e) = OpenPending x"
  by (cases "Type e"; simp)+

lemma foldl_apply_event_review [simp]:
  "OpenApproved (foldl apply_event x evs) = OpenApproved x"
  "OpenChangesRequested (foldl apply_event x evs) = OpenChangesRequested x"
  "OpenPending (foldl apply_event x evs) = OpenPending x"
  by (induction evs arbitrary: x) (simp_all del: apply_event.simps)

lemma changeset_at_review [simp]:
  "OpenApproved (changeset_at h events t c) = 0"
  "OpenChangesRequested (changeset_at h events t c) = 0"
  "OpenPending (changeset_at h events t c) = 0"
  by (simp_all add: changeset_at_def contribution_def count_changeset_on_or_before
      split: option.splits del: apply_event.simps)

lemma CalcCounts_review_counters_zero:
  assumes "CalcCounts h start end cs es = Some (Inr counts)" and "i < length counts"
  shows "OpenApproved (counts ! i) = 0 \<and> OpenChangesRequested (counts ! i) = 0 \<and>
         OpenPending (counts ! i) = 0"
proof -
  obtain ts where r: "CalcCounts_on h ts cs es = Inr counts"
    using assms(1) by (rule CalcCounts_SomeD)
  show ?thesis by (subst (1 2 3) CalcCounts_on_nth [OF r assms(2)]) simp
qed

text \<open>
  C2. The test "single changeset open, pending review, approved, merged" of
  \<^verbatim>\<open>TestCalcCounts\<close>, for any \<open>now\<close> whose window lies at least 24 hours after the smallest
  instant: the test wants \<open>OpenApproved = 1\<close> in the snapshot of two days ago.
  \<open>CalcCounts\<close> has no case for a review event (and the interface \<^verbatim>\<open>Event\<close> does not
  give it the state of the review), so \<open>OpenApproved\<close> is \<open>0\<close> in every snapshot.
\<close>

theorem CalcCounts_review_approved_then_merged:
  assumes "minTime + 24 * Hour \<le> daysAgo now 4"
  shows "CalcCounts (heap_of [ghChangesetCreated 1 (daysAgo now 3)]) (daysAgo now 4) now [0]
     [fakeEvent (daysAgo now 2) ChangesetEventKindGitHubReviewed 1,
      fakeEvent (daysAgo now 1) ChangesetEventKindGitHubMerged 1] =
   Some (Inr [\<lparr>Time = daysAgo now 4, Total = 0, Merged = 0, Closed = 0, Open = 0,
          OpenApproved = 0, OpenChangesRequested = 0, OpenPending = 0\<rparr>,
        \<lparr>Time = daysAgo now 3, Total = 1, Merged = 0, Closed = 0, Open = 1,
          OpenApproved = 0, OpenChangesRequested = 0, OpenPending = 0\<rparr>,
        \<lparr>Time = daysAgo now 2, Total = 1, Merged = 0, Closed = 0, Open = 1,
          OpenApproved = 0, OpenChangesRequested = 0, OpenPending = 0\<rparr>,
        \<lparr>Time = daysAgo now 1, Total = 1, Merged = 1, Closed = 0, Open = 0,
          OpenApproved = 0, OpenChangesRequested = 0, OpenPending = 0\<rparr>,
        \<lparr>Time = daysAgo now 0, Total = 1, Merged = 1, Closed = 0, Open = 0,
          OpenApproved = 0, OpenChangesRequested = 0, OpenPending = 0\<rparr>])"
  unfolding CalcCounts_eq generateTimestamps_4_days [OF assms]
  by (simp add: test_defs)

theorem CalcCounts_review_approved_then_merged_witness:
  "minTime + 24 * Hour \<le> daysAgo test_now 4 \<and>
   CalcCounts (heap_of [ghChangesetCreated 1 (daysAgo test_now 3)]) (daysAgo test_now 4) test_now [0]
     [fakeEvent (daysAgo test_now 2) ChangesetEventKindGitHubReviewed 1,
      fakeEvent (daysAgo test_now 1) ChangesetEventKindGitHubMerged 1] =
   Some (Inr [\<lparr>Time = daysAgo test_now 4, Total = 0, Merged = 0, Closed = 0, Open = 0,
          OpenApproved = 0, OpenChangesRequested = 0, OpenPending = 0\<rparr>,
        \<lparr>Time = daysAgo test_now 3, Total = 1, Merged = 0, Closed = 0, Open = 1,
          OpenApproved = 0, OpenChangesRequested = 0, OpenPending = 0\<rparr>,
        \<lparr>Time = daysAgo test_now 2, Total = 1, Merged = 0, Closed = 0, Open = 1,
          OpenApproved = 0, OpenChangesRequested = 0, OpenPending = 0\<rparr>,
        \<lparr>Time = daysAgo test_now 1, Total = 1, Merged = 1, Closed = 0, Open = 0,
          OpenApproved = 0, OpenChangesRequested = 0, OpenPending = 0\<rparr>,
        \<lparr>Time = daysAgo test_now 0, Total = 1, Merged = 1, Closed = 0, Open = 0,
          OpenApproved = 0, OpenChangesRequested = 0, OpenPending = 0\<rparr>])"
  using test_now_in_range(2)
    CalcCounts_review_approved_then_merged [OF test_now_in_range(2)]
  by (rule conjI)

section \<open>The signature of a webhook: claims\<close>



























text \<open>The test vector \<^verbatim>\<open>"abc"\<close> of FIPS 180-4 for the model of SHA-256.\<close>

lemma Sum256_abc:
  "EncodeToString (Sum256 (bytes ''abc'')) =
     ''ba7816bf8f01cfea414140de5dae2223b00361a396177a9cb410ff61f20015ad''"
  by code_simp

text \<open>Test case 2 of RFC 4231 for the model of HMAC-SHA256, through \<open>sign\<close>.\<close>

lemma sign_rfc4231_case_2:
  "sign (bytes ''what do ya want for nothing?'') (bytes ''Jefe'') =
     ''sha256=5bdcc146bf60754e6a042426089575c75a003f089d2739839dec58b964ec3843''"
  by code_simp

end
